theory Spec2Isabelle
  imports Complex_Main "HOL-Library.Log_Nat"
begin

section \<open>JavaScript values used by the rotation code\<close>

text \<open>
  The rotation helpers of \<^verbatim>\<open>server.js\<close> (lines 62--148, repeated verbatim in the
  second server file) compute with JavaScript numbers and \<^verbatim>\<open>Date\<close> objects.

  \<^item> A \<^verbatim>\<open>Date\<close> is represented by its time value: the integer number of milliseconds
    since 1970-01-01T00:00:00.000Z, of magnitude at most 8.64e15. Only valid dates are
    modelled (the HTTP layer rejects an unparseable \<^verbatim>\<open>startDate\<close>, and \<^verbatim>\<open>new Date()\<close> is
    always valid). The replacement of a time value beyond 8.64e15 by an invalid date
    (\<^verbatim>\<open>TimeClip\<close>) is not modelled, so the model speaks for runs in which no computed date
    leaves that range.
  \<^item> A number is an IEEE 754 double. On valid dates every number the code computes is
    an integer below \<open>2^53\<close> in magnitude, where doubles are exact, with three exceptions:
    the difference \<^verbatim>\<open>now - startMonday\<close>, which can reach \<open>2^53\<close> and is then rounded to a
    double (\<open>double_of_int\<close>); the quotients handed to \<^verbatim>\<open>Math.floor\<close>
    (\<open>Math_floor_div\<close>); and \<^verbatim>\<open>x % 0\<close>, which is \<^verbatim>\<open>NaN\<close>.
    Negative zero is identified with zero (as an array index and in JSON they agree).
  \<^item> \<^verbatim>\<open>undefined\<close>, the result of reading an array at a missing index, is \<open>None\<close>.
\<close>

datatype js_number = Number int | NaN

text \<open>
  The remainder operator \<^verbatim>\<open>a % b\<close> on integers: \<^verbatim>\<open>NaN\<close> for a zero divisor, and
  otherwise the remainder of the division truncated towards zero, which has the sign of
  the dividend.
\<close>

definition js_rem :: "int \<Rightarrow> int \<Rightarrow> js_number" where
  "js_rem a b = (if b = 0 then NaN else Number (sgn a * (\<bar>a\<bar> mod \<bar>b\<bar>)))"

text \<open>
  The property read \<^verbatim>\<open>xs[k]\<close> on an array: the element when \<open>k\<close> is an index of
  the array, \<^verbatim>\<open>undefined\<close> for every other number, \<^verbatim>\<open>NaN\<close> included.
\<close>

definition js_index :: "'a list \<Rightarrow> js_number \<Rightarrow> 'a option" where
  "js_index xs k =
     (case k of
        NaN \<Rightarrow> None
      | Number i \<Rightarrow> if 0 \<le> i \<and> i < int (length xs) then Some (xs ! nat i) else None)"

text \<open>
  The double nearest to an integer below \<open>2^54\<close> in magnitude, as the difference of two
  time values is. Every integer up to \<open>2^53 = 9007199254740992\<close> is a double. Above, the
  doubles are the even integers; an odd integer lies midway between two of them, and the
  tie goes to the one with the even significand, which is the multiple of 4.
\<close>

definition double_of_int :: "int \<Rightarrow> int" where
  "double_of_int d =
     (if \<bar>d\<bar> \<le> 9007199254740992 \<or> even d then d
      else if 4 dvd d + 1 then d + 1
      else d - 1)"

text \<open>The subtraction \<^verbatim>\<open>a - b\<close> of two time values.\<close>

definition js_minus :: "int \<Rightarrow> int \<Rightarrow> int" where
  "js_minus a b = double_of_int (a - b)"

text \<open>
  \<^verbatim>\<open>Math.floor(x / c)\<close> for an integer \<open>x\<close> and a positive integer \<open>c\<close>. The quotient is
  rounded to a double before it is floored; for the operands that occur on valid dates
  the rounded quotient has the floor of the exact one (lemmas \<open>daysSince_ieee\<close> and
  \<open>Math_floor_div_ieee\<close> below).
\<close>

definition Math_floor_div :: "int \<Rightarrow> int \<Rightarrow> int" where
  "Math_floor_div x c = x div c"

text \<open>
  The environment a call runs in. \<^verbatim>\<open>new Date()\<close> without arguments reads the wall
  clock; the host's time zone offset is part of the environment as well, and is what the
  local-time accessors of \<^verbatim>\<open>Date\<close> would read.
\<close>

record env =
  wallClock :: int
  localTZA :: int

definition Date_now :: "env \<Rightarrow> int" where
  "Date_now e = wallClock e"

text \<open>The time values of the valid dates (ECMA-262, 21.4.1.1).\<close>

definition valid_time :: "int \<Rightarrow> bool" where
  "valid_time t \<longleftrightarrow> \<bar>t\<bar> \<le> 8640000000000000"


section \<open>Rounding to an IEEE 754 double\<close>

text \<open>
  The reference the two definitions above are checked against: rounding of a rational
  number to the nearest double, ties to the even significand (ECMA-262, 6.1.6.1, in the
  range of the normal doubles). A double other than zero is \<open>M * 2^(e - 52)\<close> for an
  integer significand \<open>M\<close> from \<open>2^52\<close> to \<open>2^53\<close> and the exponent \<open>e\<close> of its binade.
\<close>

definition round_half_even :: "rat \<Rightarrow> int" where
  "round_half_even m =
     (let n = \<lfloor>m\<rfloor>; f = m - of_int n
      in if f < 1 / 2 then n
         else if 1 / 2 < f then n + 1
         else if even n then n else n + 1)"

text \<open>The exponent \<open>e\<close> with \<open>2^e \<le> \<bar>v\<bar> < 2^(e + 1)\<close>, for \<open>v\<close> other than zero.\<close>

definition binade :: "rat \<Rightarrow> int" where
  "binade v =
     (let a = \<bar>v\<bar>
      in if 1 \<le> a then bitlen \<lfloor>a\<rfloor> - 1
         else (let k = bitlen \<lfloor>1 / a\<rfloor> - 1
               in if a = 2 powi (- k) then - k else - k - 1))"

definition round_double :: "rat \<Rightarrow> rat" where
  "round_double v =
     (if v = 0 then 0
      else (let e = binade v
            in sgn v * of_int (round_half_even (\<bar>v\<bar> * 2 powi (52 - e))) * 2 powi (e - 52)))"


section \<open>Date arithmetic of ECMA-262 (section 21.4.1)\<close>

text \<open>
  The abstract operations behind \<^verbatim>\<open>getUTCDay\<close>, \<^verbatim>\<open>getUTCDate\<close>, \<^verbatim>\<open>getUTCMonth\<close>,
  \<^verbatim>\<open>getUTCFullYear\<close>, \<^verbatim>\<open>setUTCDate\<close>, \<^verbatim>\<open>setUTCHours\<close> and \<^verbatim>\<open>Date.UTC\<close>, with the names
  of the standard.
\<close>

definition msPerDay :: int where
  "msPerDay = 86400000"

definition Day :: "int \<Rightarrow> int" where
  "Day t = t div msPerDay"

definition TimeWithinDay :: "int \<Rightarrow> int" where
  "TimeWithinDay t = t mod msPerDay"

definition DaysInYear :: "int \<Rightarrow> int" where
  "DaysInYear y =
     (if y mod 4 \<noteq> 0 then 365
      else if y mod 100 \<noteq> 0 then 366
      else if y mod 400 \<noteq> 0 then 365
      else 366)"

definition DayFromYear :: "int \<Rightarrow> int" where
  "DayFromYear y =
     365 * (y - 1970) + (y - 1969) div 4 - (y - 1901) div 100 + (y - 1601) div 400"

text \<open>
  \<^verbatim>\<open>YearFromTime(t)\<close> is the largest year \<open>y\<close> with \<open>DayFromYear y \<le> Day t\<close>. It is
  computed from an estimate that is off by at most one year; the lemmas
  \<open>YearFromTime_bounds\<close> and \<open>YearFromTime_unique\<close> below show that the result is the
  year the standard asks for.
\<close>

definition YearFromTime :: "int \<Rightarrow> int" where
  "YearFromTime t =
     (let d = Day t; y = 1970 + (400 * d) div 146097
      in if DayFromYear (y + 1) \<le> d then y + 1
         else if DayFromYear y \<le> d then y
         else y - 1)"

definition InLeapYear :: "int \<Rightarrow> int" where
  "InLeapYear t = (if DaysInYear (YearFromTime t) = 365 then 0 else 1)"

definition DayWithinYear :: "int \<Rightarrow> int" where
  "DayWithinYear t = Day t - DayFromYear (YearFromTime t)"

definition MonthFromTime :: "int \<Rightarrow> int" where
  "MonthFromTime t =
     (let d = DayWithinYear t; l = InLeapYear t
      in if d < 31 then 0
         else if d < 59 + l then 1
         else if d < 90 + l then 2
         else if d < 120 + l then 3
         else if d < 151 + l then 4
         else if d < 181 + l then 5
         else if d < 212 + l then 6
         else if d < 243 + l then 7
         else if d < 273 + l then 8
         else if d < 304 + l then 9
         else if d < 334 + l then 10
         else 11)"

definition DateFromTime :: "int \<Rightarrow> int" where
  "DateFromTime t =
     (let d = DayWithinYear t; l = InLeapYear t; m = MonthFromTime t
      in if m = 0 then d + 1
         else if m = 1 then d - 30
         else if m = 2 then d - 58 - l
         else if m = 3 then d - 89 - l
         else if m = 4 then d - 119 - l
         else if m = 5 then d - 150 - l
         else if m = 6 then d - 180 - l
         else if m = 7 then d - 211 - l
         else if m = 8 then d - 242 - l
         else if m = 9 then d - 272 - l
         else if m = 10 then d - 303 - l
         else d - 333 - l)"

definition WeekDay :: "int \<Rightarrow> int" where
  "WeekDay t = (Day t + 4) mod 7"

definition MakeTime :: "int \<Rightarrow> int \<Rightarrow> int \<Rightarrow> int \<Rightarrow> int" where
  "MakeTime hour minute sec ms = hour * 3600000 + minute * 60000 + sec * 1000 + ms"

text \<open>
  \<^verbatim>\<open>MakeDay(year, month, date)\<close>: the month is normalised into the year, the day number
  of the first of that month is found, and \<open>date - 1\<close> is added to it, so a \<open>date\<close> outside
  the month (zero or negative included) carries into the neighbouring months.
\<close>

definition MonthStartDay :: "int \<Rightarrow> int \<Rightarrow> int" where
  "MonthStartDay mn ym =
     (let l = (if DaysInYear ym = 365 then 0 else 1)
      in DayFromYear ym +
         (if mn = 0 then 0
          else if mn = 1 then 31
          else if mn = 2 then 59 + l
          else if mn = 3 then 90 + l
          else if mn = 4 then 120 + l
          else if mn = 5 then 151 + l
          else if mn = 6 then 181 + l
          else if mn = 7 then 212 + l
          else if mn = 8 then 243 + l
          else if mn = 9 then 273 + l
          else if mn = 10 then 304 + l
          else 334 + l))"

definition MakeDay :: "int \<Rightarrow> int \<Rightarrow> int \<Rightarrow> int" where
  "MakeDay year month date =
     (let ym = year + month div 12; mn = month mod 12
      in MonthStartDay mn ym + date - 1)"

definition MakeDate :: "int \<Rightarrow> int \<Rightarrow> int" where
  "MakeDate day time = day * msPerDay + time"

text \<open>\<^verbatim>\<open>MakeFullYear\<close>: \<^verbatim>\<open>Date.UTC\<close> reads a year from 0 to 99 as 1900 plus that year.\<close>

definition MakeFullYear :: "int \<Rightarrow> int" where
  "MakeFullYear year = (if 0 \<le> year \<and> year \<le> 99 then 1900 + year else year)"

definition Date_UTC :: "int \<Rightarrow> int \<Rightarrow> int \<Rightarrow> int \<Rightarrow> int \<Rightarrow> int \<Rightarrow> int \<Rightarrow> int" where
  "Date_UTC year month date hours minutes seconds ms =
     MakeDate (MakeDay (MakeFullYear year) month date) (MakeTime hours minutes seconds ms)"

definition setUTCDate :: "int \<Rightarrow> int \<Rightarrow> int" where
  "setUTCDate t dt = MakeDate (MakeDay (YearFromTime t) (MonthFromTime t) dt) (TimeWithinDay t)"

definition setUTCHours :: "int \<Rightarrow> int \<Rightarrow> int \<Rightarrow> int \<Rightarrow> int \<Rightarrow> int" where
  "setUTCHours t hour minute sec ms = MakeDate (Day t) (MakeTime hour minute sec ms)"


section \<open>The rotation helpers of server.js\<close>

text \<open>
  \<^verbatim>\<open>getMondayOfWeek\<close> (lines 63--72). \<^verbatim>\<open>getUTCDay\<close> is \<open>WeekDay\<close> (0 is Sunday),
  \<^verbatim>\<open>getUTCDate\<close> is \<open>DateFromTime\<close>, \<^verbatim>\<open>getUTCFullYear\<close> is \<open>YearFromTime\<close> and
  \<^verbatim>\<open>getUTCMonth\<close> is \<open>MonthFromTime\<close>.
\<close>

definition getMondayOfWeek :: "int \<Rightarrow> int" where
  "getMondayOfWeek date =
     (let d = date;
          day = WeekDay d;
          diff = DateFromTime d - day + (if day = 0 then - 6 else 1);
          monday = Date_UTC (YearFromTime d) (MonthFromTime d) diff 0 0 0 0
      in monday)"

text \<open>\<^verbatim>\<open>addDays\<close> (lines 75--79).\<close>

definition addDays :: "int \<Rightarrow> int \<Rightarrow> int" where
  "addDays date days =
     (let result = date
      in setUTCDate result (DateFromTime result + days))"

text \<open>
  The object returned by \<^verbatim>\<open>getCurrentRotation\<close> (lines 103--112), and the entries
  pushed by \<^verbatim>\<open>getUpcomingRotations\<close> (lines 138--144). The fields of the second object
  that share a name with a field of the first carry the prefix \<open>up_\<close>.
\<close>

record rotation =
  currentPerson :: "string option"
  currentPersonIndex :: js_number
  rotationNumber :: int
  periodStart :: int
  periodEnd :: int
  weeksSinceStart :: int
  daysSinceStart :: int
  isActive :: bool

record upcoming =
  up_person :: "string option"
  up_rotationNumber :: int
  up_periodStart :: int
  up_periodEnd :: int
  isCurrent :: bool

text \<open>
  \<^verbatim>\<open>getCurrentRotation(startDate, people)\<close> (lines 82--113). The function has two
  parameters; \<open>now\<close> is read from the wall clock of the environment on its first line.
  The local variable \<^verbatim>\<open>rotationNumber\<close> is written \<open>rotationNo\<close>, the field keeps the name.
\<close>

definition getCurrentRotation :: "env \<Rightarrow> int \<Rightarrow> string list \<Rightarrow> rotation" where
  "getCurrentRotation e startDate people =
     (let now = Date_now e;
          start = startDate;
          startMonday = getMondayOfWeek start;
          daysSince = Math_floor_div (js_minus now startMonday) (1000 * 60 * 60 * 24);
          rotationNo = Math_floor_div daysSince 14;
          personIndex = js_rem rotationNo (int (length people));
          rotationStart = addDays startMonday (rotationNo * 14);
          rotationEnd = setUTCHours (addDays rotationStart 13) 23 59 59 999
      in \<lparr> currentPerson = js_index people personIndex,
           currentPersonIndex = personIndex,
           rotationNumber = rotationNo + 1,
           periodStart = rotationStart,
           periodEnd = rotationEnd,
           weeksSinceStart = Math_floor_div daysSince 7,
           daysSinceStart = daysSince,
           isActive = (now \<ge> rotationStart \<and> now \<le> rotationEnd) \<rparr>)"

text \<open>
  The body of the \<^verbatim>\<open>for\<close> loop of \<^verbatim>\<open>getUpcomingRotations\<close> (lines 131--144): the entry
  pushed for the loop counter \<open>i\<close>.
\<close>

definition upcoming_entry :: "int \<Rightarrow> string list \<Rightarrow> int \<Rightarrow> int \<Rightarrow> upcoming" where
  "upcoming_entry startMonday people currentRotationNumber i =
     (let rotationNo = currentRotationNumber + i;
          personIndex = js_rem rotationNo (int (length people));
          rotationStart = addDays startMonday (rotationNo * 14);
          rotationEnd = setUTCHours (addDays rotationStart 13) 23 59 59 999
      in \<lparr> up_person = js_index people personIndex,
           up_rotationNumber = rotationNo + 1,
           up_periodStart = rotationStart,
           up_periodEnd = rotationEnd,
           isCurrent = False \<rparr>)"

text \<open>
  The loop \<^verbatim>\<open>for (let i = 1; i <= count; i++)\<close> (line 130), from the counter \<open>i\<close> and
  the array \<open>rotations\<close> built so far.
\<close>

function upcoming_loop ::
  "int \<Rightarrow> string list \<Rightarrow> int \<Rightarrow> int \<Rightarrow> int \<Rightarrow> upcoming list \<Rightarrow> upcoming list" where
  "upcoming_loop startMonday people currentRotationNumber count i rotations =
     (if i \<le> count
      then upcoming_loop startMonday people currentRotationNumber count (i + 1)
             (rotations @ [upcoming_entry startMonday people currentRotationNumber i])
      else rotations)"
  by pat_completeness auto
termination
  by (relation "measure (\<lambda>(startMonday, people, currentRotationNumber, count, i, rotations).
        nat (count + 1 - i))") auto

text \<open>
  \<^verbatim>\<open>getUpcomingRotations(startDate, people, count = 5)\<close> (lines 116--148). An omitted
  \<^verbatim>\<open>count\<close> is \<open>None\<close> and takes the default; a supplied one is an integer.
\<close>

definition getUpcomingRotations ::
  "env \<Rightarrow> int \<Rightarrow> string list \<Rightarrow> int option \<Rightarrow> upcoming list" where
  "getUpcomingRotations e startDate people count_arg =
     (let count = (case count_arg of None \<Rightarrow> 5 | Some c \<Rightarrow> c);
          start = startDate;
          now = Date_now e;
          startMonday = getMondayOfWeek start;
          daysSince = Math_floor_div (js_minus now startMonday) (1000 * 60 * 60 * 24);
          currentRotationNumber = Math_floor_div daysSince 14
      in upcoming_loop startMonday people currentRotationNumber count 1 [])"


section \<open>Facts about rounding\<close>

text \<open>
  Rounding to a double moves a number by at most \<open>2^-53\<close> of its magnitude, and leaves a
  number with a significand of 53 bits as it is.
\<close>

lemma round_half_even_error: "\<bar>of_int (round_half_even m) - m\<bar> \<le> 1 / 2"
proof -
  have "of_int \<lfloor>m\<rfloor> \<le> m" "m < of_int \<lfloor>m\<rfloor> + 1"
    by linarith+
  thus ?thesis
    unfolding round_half_even_def Let_def by auto
qed

lemma round_half_even_of_int: "round_half_even (of_int n) = n"
  unfolding round_half_even_def Let_def by simp

lemma bitlen_powi:
  assumes "0 < n"
  shows "(2::rat) powi (bitlen n - 1) \<le> of_int n \<and> of_int n < (2::rat) powi bitlen n"
proof -
  from bitlen_bounds [OF assms]
  have b: "2 ^ nat (bitlen n - 1) \<le> n" "n < 2 ^ nat (bitlen n)"
    by simp_all
  have p: "1 \<le> bitlen n"
    using assms bitlen_eq_zero_iff [of n] bitlen_nonneg [of n] by linarith
  have "(2::rat) powi (bitlen n - 1) = of_int (2 ^ nat (bitlen n - 1))"
    using p by (simp add: power_int_def)
  moreover have "(2::rat) powi bitlen n = of_int (2 ^ nat (bitlen n))"
    using p by (simp add: power_int_def)
  ultimately show ?thesis
    using b by (metis of_int_le_iff of_int_less_iff)
qed

lemma binade_bounds:
  assumes "v \<noteq> 0"
  shows "2 powi binade v \<le> \<bar>v\<bar> \<and> \<bar>v\<bar> < 2 powi (binade v + 1)"
proof (cases "1 \<le> \<bar>v\<bar>")
  case True
  define n where "n = \<lfloor>\<bar>v\<bar>\<rfloor>"
  have n: "0 < n" "of_int n \<le> \<bar>v\<bar>" "\<bar>v\<bar> < of_int (n + 1)"
    using True unfolding n_def by (simp_all, linarith+)
  have e: "binade v = bitlen n - 1"
    using True unfolding binade_def Let_def n_def by simp
  from bitlen_powi [OF n(1)]
  have b: "(2::rat) powi (bitlen n - 1) \<le> of_int n" "of_int n < (2::rat) powi bitlen n"
    by simp_all
  have "(2::rat) powi bitlen n = of_int (2 ^ nat (bitlen n))"
    using bitlen_nonneg [of n] by (simp add: power_int_def)
  with b(2) have "n + 1 \<le> 2 ^ nat (bitlen n)"
    by (metis of_int_less_iff zless_imp_add1_zle)
  hence "(of_int (n + 1) :: rat) \<le> of_int (2 ^ nat (bitlen n))"
    by (simp only: of_int_le_iff)
  hence "(of_int (n + 1) :: rat) \<le> 2 powi bitlen n"
    using bitlen_nonneg [of n] by (simp add: power_int_def)
  with n b show ?thesis
    unfolding e by simp
next
  case False
  define a where "a = \<bar>v\<bar>"
  have a: "0 < a" "a < 1"
    using assms False unfolding a_def by simp_all
  define n where "n = \<lfloor>1 / a\<rfloor>"
  have "1 < 1 / a"
    using a by simp
  hence n: "0 < n" "of_int n \<le> 1 / a" "1 / a < of_int (n + 1)"
    unfolding n_def by (simp_all, linarith+)
  define k where "k = bitlen n - 1"
  have k0: "0 \<le> k"
    unfolding k_def using n(1) bitlen_eq_zero_iff [of n] bitlen_nonneg [of n] by linarith
  from bitlen_powi [OF n(1)]
  have b: "(2::rat) powi k \<le> of_int n" "of_int n < (2::rat) powi (k + 1)"
    unfolding k_def by simp_all
  have "(2::rat) powi (k + 1) = of_int (2 ^ nat (k + 1))"
    using k0 by (simp add: power_int_def)
  with b(2) have "n + 1 \<le> 2 ^ nat (k + 1)"
    by (metis of_int_less_iff zless_imp_add1_zle)
  hence "(of_int (n + 1) :: rat) \<le> of_int (2 ^ nat (k + 1))"
    by (simp only: of_int_le_iff)
  hence up: "(of_int (n + 1) :: rat) \<le> 2 powi (k + 1)"
    using k0 by (simp add: power_int_def)
  have lo: "(2::rat) powi k \<le> 1 / a"
    using b(1) n(2) by simp
  have hi: "1 / a < (2::rat) powi (k + 1)"
    using up n(3) by simp
  have pk: "(0::rat) < 2 powi k" "(0::rat) < 2 powi (k + 1)"
    by simp_all
  have le: "a \<le> 2 powi (- k)"
  proof -
    from lo have "a * 2 powi k \<le> 1"
      using a(1) by (simp add: field_simps)
    thus ?thesis
      using pk(1) by (simp add: power_int_minus field_simps)
  qed
  have gt: "2 powi (- k - 1) < a"
  proof -
    from hi have "1 < a * 2 powi (k + 1)"
      using a(1) by (simp add: field_simps)
    hence "1 / 2 powi (k + 1) < a"
      using pk(2) by (simp add: field_simps)
    moreover have "(2::rat) powi (- k - 1) = 1 / 2 powi (k + 1)"
      using power_int_minus [of "2::rat" "k + 1"] by (simp add: inverse_eq_divide)
    ultimately show ?thesis
      by simp
  qed
  have e: "binade v = (if a = 2 powi (- k) then - k else - k - 1)"
    using False unfolding binade_def Let_def a_def [symmetric] n_def [symmetric] k_def [symmetric]
    by simp
  show ?thesis
  proof (cases "a = 2 powi (- k)")
    case True
    have "(2::rat) powi (- k) < 2 powi (- k + 1)"
      by (rule power_int_strict_increasing) simp_all
    thus ?thesis
      unfolding e a_def [symmetric] using True by simp
  next
    case False
    with le have "a < 2 powi (- k)"
      by simp
    thus ?thesis
      unfolding e a_def [symmetric] using False gt by simp
  qed
qed

lemma powi_cancel: "(2::rat) powi (52 - e) * 2 powi (e - 52) = 1"
proof -
  have "(2::rat) powi (52 - e) * 2 powi (e - 52) = 2 powi ((52 - e) + (e - 52))"
    by (rule power_int_add [symmetric]) simp
  thus ?thesis by simp
qed

lemma round_double_error: "\<bar>round_double v - v\<bar> \<le> \<bar>v\<bar> / 2 ^ 53"
proof (cases "v = 0")
  case True
  thus ?thesis by (simp add: round_double_def)
next
  case False
  define e where "e = binade v"
  define P :: rat where "P = 2 powi (52 - e)"
  define Q :: rat where "Q = 2 powi (e - 52)"
  define m where "m = \<bar>v\<bar> * P"
  define M where "M = round_half_even m"
  have pq: "P * Q = 1" "0 < P" "0 < Q"
    unfolding P_def Q_def by (simp_all add: powi_cancel)
  have r: "round_double v = sgn v * of_int M * Q"
    using False unfolding round_double_def Let_def e_def P_def Q_def m_def M_def by simp
  have "m * Q = \<bar>v\<bar> * (P * Q)"
    unfolding m_def by simp
  hence mq: "m * Q = \<bar>v\<bar>"
    using pq(1) by simp
  have "v = sgn v * \<bar>v\<bar>"
    by (simp add: sgn_mult_abs)
  hence v: "v = sgn v * (m * Q)"
    using mq by simp
  have "round_double v - v = sgn v * ((of_int M - m) * Q)"
    by (subst v, subst r) (simp add: algebra_simps)
  hence "\<bar>round_double v - v\<bar> = \<bar>sgn v\<bar> * (\<bar>of_int M - m\<bar> * Q)"
    using pq(3) by (simp add: abs_mult)
  also have "\<bar>sgn v\<bar> = 1"
    using False by (simp add: abs_sgn_eq)
  finally have d: "\<bar>round_double v - v\<bar> = \<bar>of_int M - m\<bar> * Q"
    by simp
  have "\<bar>of_int M - m\<bar> \<le> 1 / 2"
    unfolding M_def by (rule round_half_even_error)
  hence d2: "\<bar>round_double v - v\<bar> \<le> Q / 2"
    unfolding d using pq(3) by (simp add: field_simps)
  have "Q = 2 powi e * 2 powi (- 52)"
    unfolding Q_def using power_int_add [of "2::rat" e "- 52"] by simp
  hence q: "Q = 2 powi e / 2 ^ 52"
    by (simp add: power_int_minus field_simps)
  have "2 powi e \<le> \<bar>v\<bar>"
    unfolding e_def using binade_bounds [OF False] by simp
  hence "Q \<le> \<bar>v\<bar> / 2 ^ 52"
    unfolding q by (simp add: field_simps)
  with d2 show ?thesis
    by simp
qed

lemma binade_unique:
  assumes "2 powi e \<le> \<bar>v\<bar>" "\<bar>v\<bar> < 2 powi (e + 1)"
  shows "binade v = e"
proof -
  have "(0::rat) < 2 powi e"
    by simp
  from this assms(1) have "0 < \<bar>v\<bar>"
    by (rule less_le_trans)
  hence nz: "v \<noteq> 0"
    by simp
  from binade_bounds [OF nz]
  have b: "2 powi binade v \<le> \<bar>v\<bar>" "\<bar>v\<bar> < 2 powi (binade v + 1)"
    by simp_all
  have "\<not> binade v < e"
  proof
    assume "binade v < e"
    hence "(2::rat) powi (binade v + 1) \<le> 2 powi e"
      by (intro power_int_increasing) simp_all
    with b(2) assms(1) show False by simp
  qed
  moreover have "\<not> e < binade v"
  proof
    assume "e < binade v"
    hence "(2::rat) powi (e + 1) \<le> 2 powi binade v"
      by (intro power_int_increasing) simp_all
    with b(1) assms(2) show False by simp
  qed
  ultimately show ?thesis by simp
qed

lemma round_double_exact:
  assumes "v \<noteq> 0" "\<bar>v\<bar> * 2 powi (52 - binade v) = of_int j"
  shows "round_double v = v"
proof -
  have "round_double v = sgn v * (\<bar>v\<bar> * 2 powi (52 - binade v)) * 2 powi (binade v - 52)"
    using assms unfolding round_double_def Let_def by (simp add: round_half_even_of_int)
  also have "\<dots> = sgn v * \<bar>v\<bar> * (2 powi (52 - binade v) * 2 powi (binade v - 52))"
    by simp
  also have "\<dots> = v"
    unfolding powi_cancel by (simp add: sgn_mult_abs)
  finally show ?thesis .
qed

text \<open>
  Every integer up to \<open>2^53\<close> is a double, and \<open>double_of_int\<close> is the rounding of the
  standard for every integer below \<open>2^54\<close>.
\<close>

lemma round_double_of_int:
  assumes "\<bar>n\<bar> \<le> 9007199254740992"
  shows "round_double (of_int n) = of_int n"
proof (cases "n = 0")
  case True
  thus ?thesis by (simp add: round_double_def)
next
  case False
  define v :: rat where "v = of_int n"
  have nz: "v \<noteq> 0"
    using False by (simp add: v_def)
  have a: "\<bar>v\<bar> = of_int \<bar>n\<bar>"
    by (simp add: v_def)
  show ?thesis
  proof (cases "\<bar>n\<bar> = 9007199254740992")
    case True
    hence av: "\<bar>v\<bar> = 9007199254740992"
      unfolding a by simp
    have "binade v = 53"
      by (rule binade_unique) (simp_all add: av)
    hence "\<bar>v\<bar> * 2 powi (52 - binade v) = of_int 4503599627370496"
      by (simp add: av)
    from round_double_exact [OF nz this] show ?thesis
      unfolding v_def .
  next
    case False
    with assms have lt: "\<bar>n\<bar> < 9007199254740992"
      by simp
    hence "\<bar>v\<bar> < 2 powi 53"
      unfolding a by simp
    moreover have "2 powi binade v \<le> \<bar>v\<bar>"
      using binade_bounds [OF nz] by simp
    ultimately have "(2::rat) powi binade v < 2 powi 53"
      by linarith
    have "binade v < 53"
    proof (rule ccontr)
      assume "\<not> binade v < 53"
      hence "(2::rat) powi 53 \<le> 2 powi binade v"
        by (intro power_int_increasing) simp_all
      with \<open>(2::rat) powi binade v < 2 powi 53\<close> show False
        by simp
    qed
    hence "(2::rat) powi (52 - binade v) = of_int (2 ^ nat (52 - binade v))"
      by (simp add: power_int_def)
    hence "\<bar>v\<bar> * 2 powi (52 - binade v) = of_int (\<bar>n\<bar> * 2 ^ nat (52 - binade v))"
      unfolding a by simp
    from round_double_exact [OF nz this] show ?thesis
      unfolding v_def .
  qed
qed

lemma round_double_difference:
  assumes "\<bar>d\<bar> < 18014398509481984"
  shows "round_double (of_int d) = of_int (double_of_int d)"
proof (cases "\<bar>d\<bar> \<le> 9007199254740992")
  case True
  thus ?thesis
    by (simp add: round_double_of_int double_of_int_def)
next
  case False
  define v :: rat where "v = of_int d"
  have nz: "v \<noteq> 0"
    using False by (auto simp: v_def)
  have a: "\<bar>v\<bar> = of_int \<bar>d\<bar>"
    by (simp add: v_def)
  have "(9007199254740992::rat) \<le> of_int \<bar>d\<bar>" "(of_int \<bar>d\<bar> :: rat) < 18014398509481984"
    using False assms by simp_all
  hence e: "binade v = 53"
    by (intro binade_unique) (simp_all add: a)
  define j where "j = \<bar>d\<bar> div 2"
  show ?thesis
  proof (cases "even d")
    case True
    hence "\<bar>d\<bar> = 2 * j"
      unfolding j_def by simp
    hence "\<bar>v\<bar> * 2 powi (52 - binade v) = of_int j"
      unfolding a e by simp
    from round_double_exact [OF nz this] show ?thesis
      using True unfolding v_def by (simp add: double_of_int_def)
  next
    case odd: False
    hence dj: "\<bar>d\<bar> = 2 * j + 1"
      unfolding j_def by presburger
    hence m: "\<bar>v\<bar> * 2 powi (52 - binade v) = of_int j + 1 / 2"
      unfolding a e by simp
    have "\<lfloor>(of_int j :: rat) + 1 / 2\<rfloor> = j"
      by linarith
    hence rhe: "round_half_even (of_int j + 1 / 2) = (if even j then j else j + 1)"
      unfolding round_half_even_def Let_def by simp
    have "round_double v
        = sgn v * of_int (round_half_even (\<bar>v\<bar> * 2 powi (52 - binade v))) * 2 powi (binade v - 52)"
      using nz by (simp only: round_double_def Let_def if_False)
    hence rd: "round_double v = sgn v * of_int (if even j then j else j + 1) * 2"
      by (subst (asm) m, subst (asm) rhe) (simp add: e)
    have dd: "double_of_int d = (if 4 dvd d + 1 then d + 1 else d - 1)"
      using odd False by (simp add: double_of_int_def)
    show ?thesis
    proof (cases "0 < d")
      case True
      hence d: "d = 2 * j + 1"
        using dj by simp
      have "(4 dvd d + 1) = odd j"
        unfolding d by presburger
      moreover have "sgn v = 1"
        using True by (simp add: v_def)
      ultimately show ?thesis
        unfolding v_def [symmetric] rd dd by (simp add: d)
    next
      case False
      hence d: "d = - (2 * j + 1)"
        using dj nz by (simp add: v_def)
      have "(4 dvd d + 1) = even j"
        unfolding d by presburger
      moreover have "sgn v = - 1"
        using False nz by (simp add: v_def)
      ultimately show ?thesis
        unfolding v_def [symmetric] rd dd by (simp add: d)
    qed
  qed
qed

text \<open>
  Flooring the rounded quotient of two integers gives the floor of the exact quotient,
  when the dividend is below \<open>2^53\<close>, and also when it is below \<open>2^54\<close> and both are even.
\<close>

lemma floor_round_double_div:
  assumes "0 < b"
    and "\<bar>x\<bar> < 9007199254740992 \<or> (\<bar>x\<bar> < 18014398509481984 \<and> even x \<and> even b)"
  shows "\<lfloor>round_double (of_int x / of_int b)\<rfloor> = x div b"
proof (cases "x mod b = 0")
  case True
  hence x: "x = b * (x div b)"
    by (metis mult_div_mod_eq add.right_neutral)
  have "(of_int x :: rat) = of_int b * of_int (x div b)"
    by (subst x) simp
  hence v: "(of_int x :: rat) / of_int b = of_int (x div b)"
    using assms(1) by simp
  have "\<bar>x\<bar> = b * \<bar>x div b\<bar>"
    by (subst x) (use assms(1) in \<open>simp add: abs_mult\<close>)
  hence "\<bar>x div b\<bar> \<le> 9007199254740992"
  proof -
    assume e: "\<bar>x\<bar> = b * \<bar>x div b\<bar>"
    from assms(2) show ?thesis
    proof
      assume "\<bar>x\<bar> < 9007199254740992"
      moreover have "1 * \<bar>x div b\<bar> \<le> b * \<bar>x div b\<bar>"
        using assms(1) by (intro mult_right_mono) simp_all
      ultimately show ?thesis
        using e by simp
    next
      assume h: "\<bar>x\<bar> < 18014398509481984 \<and> even x \<and> even b"
      hence "2 \<le> b"
        using assms(1) by presburger
      hence "2 * \<bar>x div b\<bar> \<le> b * \<bar>x div b\<bar>"
        by (intro mult_right_mono) simp_all
      thus ?thesis
        using e h by simp
    qed
  qed
  thus ?thesis
    unfolding v by (simp add: round_double_of_int)
next
  case False
  define q where "q = x div b"
  define r where "r = x mod b"
  define B :: rat where "B = of_int b"
  define v :: rat where "v = of_int x / B"
  have "0 \<le> x mod b" "x mod b < b"
    using assms(1) by simp_all
  hence r: "0 < r" "r < b"
    using False unfolding r_def by simp_all
  have x: "x = q * b + r"
    unfolding q_def r_def by simp
  have B: "0 < B"
    unfolding B_def using assms(1) by simp
  obtain c :: int where c: "c \<le> r" "c \<le> b - r" "\<bar>x\<bar> < c * 9007199254740992" "0 < c"
  proof -
    from assms(2) show ?thesis
    proof
      assume "\<bar>x\<bar> < 9007199254740992"
      thus ?thesis
        using r by (intro that [of 1]) simp_all
    next
      assume h: "\<bar>x\<bar> < 18014398509481984 \<and> even x \<and> even b"
      hence "even r"
        unfolding r_def by (simp add: dvd_mod)
      hence "2 \<le> r" "2 \<le> b - r"
        using r h by presburger+
      thus ?thesis
        using h by (intro that [of 2]) simp_all
    qed
  qed
  have av: "\<bar>v\<bar> = of_int \<bar>x\<bar> / B"
    unfolding v_def using B by (simp add: abs_divide)
  have "of_int \<bar>x\<bar> < (of_int (c * 9007199254740992) :: rat)"
    using c(3) by (simp only: of_int_less_iff)
  hence "of_int \<bar>x\<bar> / 2 ^ 53 < (of_int c :: rat)"
    by simp
  hence "\<bar>v\<bar> / 2 ^ 53 < of_int c / B"
    unfolding av using B by (simp add: field_simps)
  with round_double_error [of v] have err: "\<bar>round_double v - v\<bar> < of_int c / B"
    by (rule le_less_trans)
  have xq: "(of_int x :: rat) = of_int q * B + of_int r"
    unfolding B_def by (subst x) simp
  have "of_int q \<le> v - of_int c / B"
  proof -
    have "of_int q * B \<le> of_int x - (of_int c :: rat)"
      unfolding xq using c(1) by simp
    thus ?thesis
      unfolding v_def using B by (simp add: field_simps)
  qed
  moreover have "v + of_int c / B \<le> of_int q + 1"
  proof -
    have "(of_int c :: rat) \<le> of_int (b - r)"
      using c(2) by (simp only: of_int_le_iff)
    hence "of_int x + (of_int c :: rat) \<le> (of_int q + 1) * B"
      unfolding xq B_def by (simp add: algebra_simps)
    thus ?thesis
      unfolding v_def using B by (simp add: field_simps)
  qed
  ultimately have "of_int q \<le> round_double v" "round_double v < of_int q + 1"
    using err by linarith+
  hence "\<lfloor>round_double v\<rfloor> = q"
    by (rule floor_unique)
  thus ?thesis
    unfolding v_def B_def q_def .
qed

lemma double_of_int_exact:
  assumes "\<bar>d\<bar> \<le> 9007199254740992 \<or> even d"
  shows "double_of_int d = d"
  using assms by (auto simp: double_of_int_def)

lemma double_of_int_cases:
  "double_of_int d = d
   \<or> (odd d \<and> even (double_of_int d) \<and> (double_of_int d = d + 1 \<or> double_of_int d = d - 1))"
  by (auto simp: double_of_int_def)


lemma double_of_int_less_even:
  assumes "double_of_int d < m" "even m"
  shows "d < m"
proof -
  have aux: "d < m"
    if "r < m" "even m" "r = d \<or> (odd d \<and> even r \<and> (r = d + 1 \<or> r = d - 1))"
    for r :: int
    using that by presburger
  from assms double_of_int_cases [of d] show ?thesis
    by (rule aux)
qed

text \<open>
  The two roundings of \<^verbatim>\<open>Math.floor((now - startMonday) / (1000 * 60 * 60 * 24))\<close>, for
  every difference that two valid dates can have (at most \<open>17280000000000000\<close>, and six
  days more when the Monday computed lies before the first valid date), and the rounding
  of \<^verbatim>\<open>Math.floor(x / c)\<close> for the days counted.
\<close>

lemma daysSince_ieee:
  assumes "\<bar>a - b\<bar> \<le> 18000000000000000"
  shows "\<lfloor>round_double (round_double (of_int (a - b)) / of_int (1000 * 60 * 60 * 24))\<rfloor>
     = Math_floor_div (js_minus a b) (1000 * 60 * 60 * 24)"
proof -
  define d where "d = a - b"
  define x where "x = double_of_int d"
  have d: "\<bar>d\<bar> \<le> 18000000000000000"
    unfolding d_def by (rule assms)
  hence r: "round_double (of_int d) = of_int x"
    unfolding x_def by (intro round_double_difference) simp
  have c: "x = d \<or> (odd d \<and> even x \<and> (x = d + 1 \<or> x = d - 1))"
    unfolding x_def by (rule double_of_int_cases)
  have "\<bar>x\<bar> < 9007199254740992 \<or> (\<bar>x\<bar> < 18014398509481984 \<and> even x \<and> even (86400000::int))"
  proof (cases "\<bar>d\<bar> < 9007199254740992")
    case True
    hence "x = d"
      unfolding x_def by (simp add: double_of_int_def)
    with True show ?thesis
      by simp
  next
    case False
    have "even x"
    proof (cases "\<bar>d\<bar> \<le> 9007199254740992")
      case True
      with False have "d = 9007199254740992 \<or> d = - 9007199254740992"
        by linarith
      moreover have "x = d"
        unfolding x_def using True by (simp add: double_of_int_def)
      ultimately show ?thesis
        by auto
    next
      case False
      thus ?thesis
        unfolding x_def by (auto simp: double_of_int_def)
    qed
    moreover have "\<bar>x\<bar> < 18014398509481984"
      using c d by linarith
    ultimately show ?thesis
      by simp
  qed
  from floor_round_double_div [OF _ this]
  have "\<lfloor>round_double (of_int x / of_int 86400000)\<rfloor> = x div 86400000"
    by simp
  thus ?thesis
    unfolding d_def [symmetric] r Math_floor_div_def js_minus_def x_def by simp
qed

lemma Math_floor_div_ieee:
  assumes "0 < c" "\<bar>x\<bar> < 9007199254740992"
  shows "\<lfloor>round_double (of_int x / of_int c)\<rfloor> = Math_floor_div x c"
  unfolding Math_floor_div_def using assms by (intro floor_round_double_div) simp_all


section \<open>Facts about the date arithmetic\<close>

lemma div_bounds: "0 < (c::int) \<Longrightarrow> c * (x div c) \<le> x \<and> x < c * (x div c) + c"
  by (metis pos_mod_bound pos_mod_sign mult_div_mod_eq add_le_cancel_left
      add_less_cancel_left add.right_neutral)

text \<open>
  \<open>DayFromYear\<close> stays within a day and a half of the mean Gregorian year of 365.2425
  days; this bounds the error of the estimate in \<open>YearFromTime\<close>.
\<close>

lemma DayFromYear_linear_upper:
  fixes a b c y :: int
  assumes "4 * a \<le> y - 1969" "y - 1901 < 100 * b + 100" "400 * c \<le> y - 1601"
  shows "400 * (365 * (y - 1970) + a - b + c) \<le> 146097 * (y - 1970) + 600"
  using assms by (simp add: right_diff_distrib distrib_left)

lemma DayFromYear_linear_lower:
  fixes a b c y :: int
  assumes "y - 1969 < 4 * a + 4" "100 * b \<le> y - 1901" "y - 1601 < 400 * c + 400"
  shows "146097 * (y - 1970) - 600 \<le> 400 * (365 * (y - 1970) + a - b + c)"
  using assms by (simp add: right_diff_distrib distrib_left)

lemma DayFromYear_lower: "146097 * (y - 1970) - 600 \<le> 400 * DayFromYear y"
  unfolding DayFromYear_def
  by (rule DayFromYear_linear_lower) (simp_all add: div_bounds)

lemma DayFromYear_upper: "400 * DayFromYear y \<le> 146097 * (y - 1970) + 600"
  unfolding DayFromYear_def
  by (rule DayFromYear_linear_upper) (simp_all add: div_bounds)

lemma year_estimate_low: "DayFromYear (1970 + (400 * d) div 146097 - 1) \<le> d"
proof -
  have "146097 * ((400 * d) div 146097) \<le> 400 * d"
    by (simp add: div_bounds)
  moreover have "400 * DayFromYear (1970 + 400 * d div 146097 - 1)
      \<le> 146097 * (400 * d div 146097 - 1) + 600"
    using DayFromYear_upper [of "1970 + (400 * d) div 146097 - 1"] by simp
  ultimately show ?thesis
    by (simp add: right_diff_distrib)
qed

lemma year_estimate_high: "d < DayFromYear (1970 + (400 * d) div 146097 + 2)"
proof -
  have "400 * d < 146097 * ((400 * d) div 146097) + 146097"
    by (simp add: div_bounds)
  moreover have "146097 * (400 * d div 146097 + 2) - 600
      \<le> 400 * DayFromYear (1970 + 400 * d div 146097 + 2)"
    using DayFromYear_lower [of "1970 + (400 * d) div 146097 + 2"] by simp
  ultimately show ?thesis
    by (simp add: distrib_left)
qed

text \<open>The year computed is the one the standard defines: its first day is the last
  first-of-January on or before the day of \<open>t\<close>.\<close>

lemma YearFromTime_bounds:
  "DayFromYear (YearFromTime t) \<le> Day t \<and> Day t < DayFromYear (YearFromTime t + 1)"
  unfolding YearFromTime_def Let_def
  using year_estimate_low [of "Day t"] year_estimate_high [of "Day t"]
  by (simp add: add.commute)

lemma MonthFromTime_range: "0 \<le> MonthFromTime t \<and> MonthFromTime t \<le> 11"
  unfolding MonthFromTime_def Let_def by simp

text \<open>
  The calendar functions agree with the definitions of the standard: a year has
  \<open>DaysInYear\<close> days, \<open>YearFromTime\<close> is the one year whose days contain \<open>Day t\<close>, the day
  within the year is in range, and \<open>MakeDay\<close> finds the day on which the first of a month
  falls.
\<close>

lemma div_succ:
  fixes x c :: int
  assumes "0 < c"
  shows "(x + 1) div c = x div c + (if c dvd x + 1 then 1 else 0)"
proof (cases "c dvd x + 1")
  case True
  then obtain q where q: "x + 1 = c * q" by (auto elim: dvdE)
  hence x: "x = c * (q - 1) + (c - 1)" by (simp add: right_diff_distrib)
  have "x div c = q - 1"
    unfolding x using assms by (simp add: div_pos_pos_trivial)
  moreover have "(x + 1) div c = q" unfolding q using assms by simp
  ultimately show ?thesis using True by simp
next
  case False
  define r where "r = x mod c"
  have r: "0 \<le> r" "r < c" using assms by (simp_all add: r_def)
  have x: "x = c * (x div c) + r" by (simp add: r_def)
  have "r + 1 \<noteq> c"
  proof
    assume "r + 1 = c"
    hence "x + 1 = c * (x div c + 1)" using x by (simp add: distrib_left)
    hence "c dvd x + 1" by (metis dvd_triv_left)
    with False show False by simp
  qed
  hence r1: "0 \<le> r + 1" "r + 1 < c" using r by simp_all
  have "x + 1 = (r + 1) + c * (x div c)" using x by simp
  hence "(x + 1) div c = (r + 1 + c * (x div c)) div c"
    by (rule arg_cong)
  also have "\<dots> = (r + 1) div c + x div c"
    using assms by simp
  finally have "(x + 1) div c = (r + 1) div c + x div c" .
  thus ?thesis using r1 False by (simp add: div_pos_pos_trivial)
qed

lemma DayFromYear_succ: "DayFromYear (y + 1) = DayFromYear y + DaysInYear y"
proof -
  have a: "(y + 1 - 1969) div 4 = (y - 1969) div 4 + (if 4 dvd y then 1 else 0)"
    using div_succ [of 4 "y - 1969"] dvd_diff_left_iff [of 4 1968 y] by (simp add: algebra_simps)
  have b: "(y + 1 - 1901) div 100 = (y - 1901) div 100 + (if 100 dvd y then 1 else 0)"
    using div_succ [of 100 "y - 1901"] dvd_diff_left_iff [of 100 1900 y] by (simp add: algebra_simps)
  have c: "(y + 1 - 1601) div 400 = (y - 1601) div 400 + (if 400 dvd y then 1 else 0)"
    using div_succ [of 400 "y - 1601"] dvd_diff_left_iff [of 400 1600 y] by (simp add: algebra_simps)
  have d1: "100 dvd y \<Longrightarrow> 4 dvd y" by (rule dvd_trans [of 4 100 y]) simp_all
  have d2: "400 dvd y \<Longrightarrow> 100 dvd y" by (rule dvd_trans [of 100 400 y]) simp_all
  show ?thesis
    unfolding DayFromYear_def DaysInYear_def a b c
    using d1 d2 by (auto simp: dvd_eq_mod_eq_0 [symmetric])
qed

lemma DaysInYear_ge: "365 \<le> DaysInYear y \<and> DaysInYear y \<le> 366"
  by (simp add: DaysInYear_def)

lemma DayFromYear_mono:
  assumes "y \<le> y'"
  shows "DayFromYear y \<le> DayFromYear y'"
  using assms
proof (induction y' rule: int_ge_induct)
  case base
  show ?case by simp
next
  case (step i)
  have "DayFromYear i \<le> DayFromYear (i + 1)"
    unfolding DayFromYear_succ using DaysInYear_ge [of i] by simp
  with step.IH show ?case by simp
qed

lemma YearFromTime_unique:
  assumes "DayFromYear y \<le> Day t" "Day t < DayFromYear (y + 1)"
  shows "YearFromTime t = y"
proof (rule ccontr)
  assume n: "YearFromTime t \<noteq> y"
  have b: "DayFromYear (YearFromTime t) \<le> Day t" "Day t < DayFromYear (YearFromTime t + 1)"
    using YearFromTime_bounds [of t] by simp_all
  show False
  proof (cases "YearFromTime t < y")
    case True
    hence "DayFromYear (YearFromTime t + 1) \<le> DayFromYear y"
      by (intro DayFromYear_mono) simp
    with b(2) assms(1) show False by simp
  next
    case False
    with n have "y + 1 \<le> YearFromTime t" by simp
    hence "DayFromYear (y + 1) \<le> DayFromYear (YearFromTime t)"
      by (rule DayFromYear_mono)
    with b(1) assms(2) show False by simp
  qed
qed

lemma DayWithinYear_range:
  "0 \<le> DayWithinYear t \<and> DayWithinYear t < DaysInYear (YearFromTime t)"
  unfolding DayWithinYear_def
  using YearFromTime_bounds [of t] DayFromYear_succ [of "YearFromTime t"] by simp

lemma MakeDay_first_of_month:
  assumes "0 \<le> mn" "mn \<le> 11"
  shows "YearFromTime (MakeDate (MakeDay y mn 1) 0) = y
       \<and> MonthFromTime (MakeDate (MakeDay y mn 1) 0) = mn
       \<and> DateFromTime (MakeDate (MakeDay y mn 1) 0) = 1"
proof -
  define t where "t = MakeDate (MakeDay y mn 1) 0"
  define l :: int where "l = (if DaysInYear y = 365 then 0 else 1)"
  define off :: int where "off =
         (if mn = 0 then 0
          else if mn = 1 then 31
          else if mn = 2 then 59 + l
          else if mn = 3 then 90 + l
          else if mn = 4 then 120 + l
          else if mn = 5 then 151 + l
          else if mn = 6 then 181 + l
          else if mn = 7 then 212 + l
          else if mn = 8 then 243 + l
          else if mn = 9 then 273 + l
          else if mn = 10 then 304 + l
          else 334 + l)"
  have m: "mn div 12 = 0" "mn mod 12 = mn" using assms by simp_all
  have d: "Day t = DayFromYear y + off"
    unfolding t_def MakeDate_def MakeDay_def Let_def m MonthStartDay_def Day_def off_def l_def
    by (simp add: msPerDay_def)
  have l: "DaysInYear y = 365 + l" "0 \<le> l" "l \<le> 1"
    unfolding l_def using DaysInYear_ge [of y] by auto
  have o: "0 \<le> off" "off < DaysInYear y"
    unfolding off_def l(1) using l(2,3) by auto
  have y: "YearFromTime t = y"
    by (rule YearFromTime_unique) (use d o DayFromYear_succ [of y] in simp_all)
  have w: "DayWithinYear t = off" unfolding DayWithinYear_def y d by simp
  have il: "InLeapYear t = l" unfolding InLeapYear_def y l_def by simp
  have cases: "mn = 0 \<or> mn = 1 \<or> mn = 2 \<or> mn = 3 \<or> mn = 4 \<or> mn = 5 \<or> mn = 6
      \<or> mn = 7 \<or> mn = 8 \<or> mn = 9 \<or> mn = 10 \<or> mn = 11"
    using assms by arith
  have mo: "MonthFromTime t = mn"
    unfolding MonthFromTime_def Let_def w il off_def using cases l(2,3) by auto
  have "DateFromTime t = 1"
    unfolding DateFromTime_def Let_def mo w il off_def using cases by auto
  with y mo show ?thesis unfolding t_def by simp
qed

text \<open>
  Setting the day of the month of \<open>t\<close> to its own value plus \<open>k\<close> moves the day number
  by \<open>k\<close>, across month and year ends.
\<close>

lemma MakeDay_DateFromTime:
  "MakeDay (YearFromTime t) (MonthFromTime t) (DateFromTime t + k) = Day t + k"
proof -
  have r: "0 \<le> MonthFromTime t \<and> MonthFromTime t \<le> 11"
    by (rule MonthFromTime_range)
  hence m: "MonthFromTime t div 12 = 0" "MonthFromTime t mod 12 = MonthFromTime t"
    by simp_all
  show ?thesis
    unfolding MakeDay_def Let_def m MonthStartDay_def DateFromTime_def DayWithinYear_def
      InLeapYear_def
    using r by auto
qed

lemma addDays_eq: "addDays t k = t + k * msPerDay"
  unfolding addDays_def Let_def setUTCDate_def MakeDay_DateFromTime MakeDate_def Day_def
    TimeWithinDay_def
  by (simp add: distrib_right)

lemma setUTCHours_end: "setUTCHours t 23 59 59 999 = Day t * msPerDay + 86399999"
  unfolding setUTCHours_def MakeDate_def MakeTime_def by simp

lemma Day_of_midnight: "t mod msPerDay = 0 \<Longrightarrow> Day t * msPerDay = t"
  unfolding Day_def by (metis mult.commute mult_div_mod_eq add.right_neutral)

lemma split_day:
  assumes "P mod msPerDay = 0" "0 \<le> r" "r < msPerDay"
  shows "Day (P + k * msPerDay + r) = Day P + k \<and> TimeWithinDay (P + k * msPerDay + r) = r"
proof -
  from assms(1) have "msPerDay dvd P"
    by (simp add: dvd_eq_mod_eq_0)
  then obtain a where a: "P = a * msPerDay"
    by (metis dvd_def mult.commute)
  have e: "P + k * msPerDay + r = r + (a + k) * msPerDay"
    unfolding a by (simp add: distrib_right)
  have pos: "msPerDay \<noteq> 0"
    by (simp add: msPerDay_def)
  have "Day P = a"
    unfolding Day_def a using pos by simp
  moreover have "(r + (a + k) * msPerDay) div msPerDay = a + k"
    using pos assms(2,3) by simp
  moreover have "(r + (a + k) * msPerDay) mod msPerDay = r"
    using assms(2,3) by simp
  ultimately show ?thesis
    unfolding Day_def TimeWithinDay_def e by simp
qed


section \<open>Facts about getMondayOfWeek\<close>

lemma monday_offset:
  "(d::int) - (d + 4) mod 7 + (if (d + 4) mod 7 = 0 then - 6 else 1) = d - (d + 3) mod 7"
proof -
  define m where "m = (d + 3) mod 7"
  have r: "0 \<le> m" "m < 7"
    by (simp_all add: m_def)
  have "(d + 4) mod 7 = (m + 1) mod 7"
    unfolding m_def using mod_add_left_eq [of "d + 3" 7 1] by (simp add: add.commute)
  also have "\<dots> = (if m = 6 then 0 else m + 1)"
    using r by simp
  finally have "(d + 4) mod 7 = (if m = 6 then 0 else m + 1)" .
  thus ?thesis
    using r unfolding m_def [symmetric] by simp
qed

lemma getMondayOfWeek_day:
  "getMondayOfWeek t =
     MakeDay (MakeFullYear (YearFromTime t)) (MonthFromTime t)
       (DateFromTime t - WeekDay t + (if WeekDay t = 0 then - 6 else 1)) * msPerDay"
  unfolding getMondayOfWeek_def Let_def Date_UTC_def MakeDate_def MakeTime_def by simp

text \<open>Whatever the date, the result is a midnight (00:00:00.000 UTC).\<close>

lemma getMondayOfWeek_midnight: "getMondayOfWeek t mod msPerDay = 0"
  unfolding getMondayOfWeek_day by simp

text \<open>
  For a date whose UTC year is not one of 0 to 99, the result is the midnight that
  starts the day \<open>(Day t + 3) mod 7\<close> days before the day of \<open>t\<close>; that number is the
  count of days since Monday, 6 on a Sunday.
\<close>

lemma getMondayOfWeek_eq:
  assumes "\<not> (0 \<le> YearFromTime t \<and> YearFromTime t \<le> 99)"
  shows "getMondayOfWeek t = (Day t - (Day t + 3) mod 7) * msPerDay"
proof -
  have "MakeFullYear (YearFromTime t) = YearFromTime t"
    using assms unfolding MakeFullYear_def by simp
  moreover have "DateFromTime t - WeekDay t + (if WeekDay t = 0 then - 6 else 1)
      = DateFromTime t + (- WeekDay t + (if WeekDay t = 0 then - 6 else 1))"
    by simp
  ultimately have "getMondayOfWeek t
      = (Day t + (- WeekDay t + (if WeekDay t = 0 then - 6 else 1))) * msPerDay"
    unfolding getMondayOfWeek_day by (simp only: MakeDay_DateFromTime)
  also have "Day t + (- WeekDay t + (if WeekDay t = 0 then - 6 else 1))
      = Day t - (Day t + 3) mod 7"
    unfolding WeekDay_def using monday_offset [of "Day t"] by simp
  finally show ?thesis .
qed


text \<open>
  Hence, for such a date, the result is a Monday at 00:00:00.000 UTC, not after the
  date and less than seven days before it; for a Sunday it is the Monday six days earlier.
\<close>

lemma getMondayOfWeek_aligned:
  assumes "\<not> (0 \<le> YearFromTime t \<and> YearFromTime t \<le> 99)"
  shows "WeekDay (getMondayOfWeek t) = 1
       \<and> TimeWithinDay (getMondayOfWeek t) = 0
       \<and> getMondayOfWeek t \<le> t
       \<and> t - getMondayOfWeek t < 7 * msPerDay
       \<and> (WeekDay t = 0 \<longrightarrow> Day (getMondayOfWeek t) = Day t - 6)"
proof -
  define d where "d = Day t"
  define m where "m = (d + 3) mod 7"
  have g: "getMondayOfWeek t = (d - m) * msPerDay"
    unfolding d_def m_def by (rule getMondayOfWeek_eq [OF assms])
  have r: "0 \<le> m" "m < 7"
    by (simp_all add: m_def)
  have t: "86400000 * d \<le> t \<and> t < 86400000 * d + 86400000"
    unfolding d_def Day_def msPerDay_def by (rule div_bounds) simp
  have dg: "Day (getMondayOfWeek t) = d - m"
    unfolding g Day_def by (simp add: msPerDay_def)
  have "d + 3 = 7 * ((d + 3) div 7) + m"
    unfolding m_def by simp
  hence e: "d - m + 4 = 1 + 7 * ((d + 3) div 7)"
    by simp
  have c1: "WeekDay (getMondayOfWeek t) = 1"
    unfolding WeekDay_def dg e by simp
  have c2: "TimeWithinDay (getMondayOfWeek t) = 0"
    unfolding TimeWithinDay_def by (rule getMondayOfWeek_midnight)
  have c3: "getMondayOfWeek t \<le> t"
    unfolding g using r t by (simp add: msPerDay_def left_diff_distrib)
  have c4: "t - getMondayOfWeek t < 7 * msPerDay"
    unfolding g using r t by (simp add: msPerDay_def left_diff_distrib)
  have c5: "Day (getMondayOfWeek t) = Day t - 6" if "WeekDay t = 0"
  proof -
    from that have "(d + 4) mod 7 = 0"
      unfolding WeekDay_def d_def .
    with monday_offset [of d] have "m = 6"
      unfolding m_def by simp
    thus ?thesis
      unfolding dg d_def by simp
  qed
  show ?thesis
    using c1 c2 c3 c4 c5 by blast
qed


section \<open>Facts about getCurrentRotation\<close>

lemma period_bracket:
  fixes x q r :: int
  assumes "86400000 * q \<le> x" "x < 86400000 * q + 86400000" "14 * r \<le> q" "q < 14 * r + 14"
  shows "r * 14 * 86400000 \<le> x \<and> x \<le> r * 14 * 86400000 + 14 * 86400000 - 1"
  using assms by simp

lemma period_bracket_div:
  "(x div 86400000 div 14) * 14 * 86400000 \<le> x \<and>
   x \<le> (x div 86400000 div 14) * 14 * 86400000 + 14 * 86400000 - 1" for x :: int
  by (rule period_bracket [where q = "x div 86400000"]) (simp_all add: div_bounds)

lemma rotation_end_eq:
  assumes "sm mod msPerDay = 0"
  shows "setUTCHours (addDays (addDays sm k) 13) 23 59 59 999
     = sm + k * msPerDay + 13 * msPerDay + 86399999"
proof -
  have "(sm + k * msPerDay + 13 * msPerDay) mod msPerDay = 0"
    using assms by (simp add: mod_add_left_eq)
  hence "Day (sm + k * msPerDay + 13 * msPerDay) * msPerDay = sm + k * msPerDay + 13 * msPerDay"
    by (rule Day_of_midnight)
  thus ?thesis
    unfolding addDays_eq setUTCHours_end by simp
qed

text \<open>
  The fields of the record, in terms of the rounded difference between the clock and the
  Monday computed for the anchor.
\<close>

lemma daysSinceStart_eq:
  "daysSinceStart (getCurrentRotation e s p)
     = double_of_int (wallClock e - getMondayOfWeek s) div msPerDay"
  unfolding getCurrentRotation_def Let_def Date_now_def msPerDay_def Math_floor_div_def
    js_minus_def
  by simp

lemma rotationNumber_eq:
  "rotationNumber (getCurrentRotation e s p)
     = double_of_int (wallClock e - getMondayOfWeek s) div msPerDay div 14 + 1"
  unfolding getCurrentRotation_def Let_def Date_now_def msPerDay_def Math_floor_div_def
    js_minus_def
  by simp

lemma periodStart_eq:
  "periodStart (getCurrentRotation e s p) =
     getMondayOfWeek s
       + (double_of_int (wallClock e - getMondayOfWeek s) div msPerDay div 14) * 14 * msPerDay"
  unfolding getCurrentRotation_def Let_def Date_now_def addDays_eq msPerDay_def
    Math_floor_div_def js_minus_def
  by simp

lemma periodEnd_eq:
  "periodEnd (getCurrentRotation e s p) =
     getMondayOfWeek s
       + (double_of_int (wallClock e - getMondayOfWeek s) div msPerDay div 14) * 14 * msPerDay
       + 13 * msPerDay + 86399999"
proof -
  have "periodEnd (getCurrentRotation e s p) =
      setUTCHours (addDays (addDays (getMondayOfWeek s)
         (double_of_int (wallClock e - getMondayOfWeek s) div msPerDay div 14 * 14)) 13)
        23 59 59 999"
    unfolding getCurrentRotation_def Let_def Date_now_def msPerDay_def Math_floor_div_def
      js_minus_def
    by simp
  thus ?thesis
    using rotation_end_eq [OF getMondayOfWeek_midnight] by simp
qed

lemma isActive_eq:
  "isActive (getCurrentRotation e s p) \<longleftrightarrow>
     periodStart (getCurrentRotation e s p) \<le> wallClock e \<and>
     wallClock e \<le> periodEnd (getCurrentRotation e s p)"
  unfolding getCurrentRotation_def Let_def Date_now_def by simp

lemma currentPerson_eq:
  "currentPersonIndex (getCurrentRotation e s p)
      = js_rem (rotationNumber (getCurrentRotation e s p) - 1) (int (length p))
   \<and> currentPerson (getCurrentRotation e s p)
      = js_index p (currentPersonIndex (getCurrentRotation e s p))"
  unfolding getCurrentRotation_def Let_def by simp

text \<open>Where the period index is not negative and there is a participant, the remainder
  is the modulo and selects an element of the list.\<close>

lemma js_rem_nonneg:
  assumes "0 \<le> k" "0 < n"
  shows "js_rem k n = Number (k mod n)"
proof (cases "k = 0")
  case True
  thus ?thesis using assms by (simp add: js_rem_def)
next
  case False
  hence "sgn k = 1" using assms by simp
  thus ?thesis using assms by (simp add: js_rem_def)
qed

lemma js_index_mod:
  assumes "p \<noteq> []"
  shows "js_index p (Number (k mod int (length p))) = Some (p ! nat (k mod int (length p)))"
  using assms by (simp add: js_index_def)


text \<open>
  The clock reading is never after the end of the period returned, whatever the rounding:
  a rounded difference below an even bound is the rounding of a difference below it.
\<close>

lemma clock_before_period_end:
  "wallClock e \<le> periodEnd (getCurrentRotation e s p)"
proof -
  define d where "d = wallClock e - getMondayOfWeek s"
  define k where "k = double_of_int d div 86400000 div 14"
  have "double_of_int d \<le> k * 14 * 86400000 + 14 * 86400000 - 1"
    unfolding k_def using period_bracket_div [of "double_of_int d"] by simp
  hence "double_of_int d < 2 * (k * 604800000 + 604800000)"
    by simp
  hence "d < 2 * (k * 604800000 + 604800000)"
    by (rule double_of_int_less_even) simp
  thus ?thesis
    unfolding periodEnd_eq msPerDay_def d_def [symmetric] k_def [symmetric]
    by (simp add: d_def)
qed

text \<open>
  Where the difference is a double, at most \<open>2^53\<close> in particular, the clock reading is
  not before the start of the period either.
\<close>

lemma clock_within_period:
  assumes "\<bar>wallClock e - getMondayOfWeek s\<bar> \<le> 9007199254740992"
  shows "periodStart (getCurrentRotation e s p) \<le> wallClock e
       \<and> wallClock e \<le> periodEnd (getCurrentRotation e s p)"
proof -
  have x: "double_of_int (wallClock e - getMondayOfWeek s) = wallClock e - getMondayOfWeek s"
    using assms by (intro double_of_int_exact) simp
  have "((wallClock e - getMondayOfWeek s) div 86400000 div 14) * 14 * 86400000
          \<le> wallClock e - getMondayOfWeek s"
    using period_bracket_div [of "wallClock e - getMondayOfWeek s"] by simp
  hence "periodStart (getCurrentRotation e s p) \<le> wallClock e"
    unfolding periodStart_eq x msPerDay_def by simp
  thus ?thesis
    using clock_before_period_end [of e s p] by simp
qed

text \<open>
  A negative dividend that the divisor does not divide has a negative remainder, so for
  a negative period index that is not a multiple of the number of participants the index
  is negative and the participant read from the list is \<^verbatim>\<open>undefined\<close>.
\<close>

lemma js_rem_negative:
  assumes "k < 0" "\<not> n dvd k" "0 < n"
  shows "\<exists>i. js_rem k n = Number i \<and> i < 0"
proof -
  have "\<not> n dvd \<bar>k\<bar>"
    using assms(2) by simp
  hence "\<bar>k\<bar> mod \<bar>n\<bar> \<noteq> 0"
    using assms(3) by (simp add: dvd_eq_mod_eq_0)
  moreover have "0 \<le> \<bar>k\<bar> mod \<bar>n\<bar>"
    using assms(3) by simp
  ultimately have "0 < \<bar>k\<bar> mod \<bar>n\<bar>"
    by linarith
  moreover have "sgn k = - 1"
    using assms(1) by simp
  ultimately show ?thesis
    using assms(3) by (simp add: js_rem_def)
qed

lemma currentPerson_undefined_before_anchor:
  assumes "rotationNumber (getCurrentRotation e s p) - 1 < 0"
    and "\<not> int (length p) dvd rotationNumber (getCurrentRotation e s p) - 1"
  shows "currentPerson (getCurrentRotation e s p) = None"
proof (cases "p = []")
  case True
  thus ?thesis
    unfolding getCurrentRotation_def Let_def by (simp add: js_rem_def js_index_def)
next
  case False
  hence "0 < int (length p)"
    by simp
  from js_rem_negative [OF assms(1) assms(2) this]
  obtain i where
    "js_rem (rotationNumber (getCurrentRotation e s p) - 1) (int (length p)) = Number i" "i < 0"
    by blast
  thus ?thesis
    using currentPerson_eq [of e s p] by (simp add: js_index_def)
qed

text \<open>
  At a clock reading of the anchor's Monday plus \<open>14 * n\<close> days the period index is \<open>n\<close>;
  for \<open>n\<close> not negative and a list that is not empty the participant is the element at
  \<open>n\<close> modulo the length of the list.
\<close>

lemma rotation_at_period_start:
  assumes "wallClock e = getMondayOfWeek s + 14 * n * msPerDay"
  shows "rotationNumber (getCurrentRotation e s p) - 1 = n
       \<and> rotationNumber (getCurrentRotation e s p) = n + 1
       \<and> (0 \<le> n \<and> p \<noteq> [] \<longrightarrow>
            currentPerson (getCurrentRotation e s p) = Some (p ! (nat n mod length p)))"
proof -
  have d: "wallClock e - getMondayOfWeek s = 14 * n * msPerDay"
    using assms by simp
  have "even (14 * n * msPerDay)"
    by simp
  hence x: "double_of_int (14 * n * msPerDay) = 14 * n * msPerDay"
    by (intro double_of_int_exact) simp
  have "(14 * n * msPerDay) div msPerDay = 14 * n"
    by (simp add: msPerDay_def)
  hence k: "rotationNumber (getCurrentRotation e s p) - 1 = n"
    unfolding rotationNumber_eq d x by simp
  have "currentPerson (getCurrentRotation e s p) = Some (p ! (nat n mod length p))"
    if "0 \<le> n" "p \<noteq> []"
  proof -
    have "0 < int (length p)"
      using that(2) by simp
    hence "js_rem n (int (length p)) = Number (n mod int (length p))"
      using that(1) by (rule js_rem_nonneg [rotated])
    moreover have "nat (n mod int (length p)) = nat n mod length p"
      using that(1) by (simp add: nat_mod_distrib)
    ultimately show ?thesis
      using currentPerson_eq [of e s p] js_index_mod [OF that(2), of n] unfolding k by simp
  qed
  thus ?thesis
    using k by simp
qed

text \<open>
  The bounds of the period: \<open>periodStart\<close> is the Monday computed for the anchor plus 14
  days times the period index returned (\<open>rotationNumber - 1\<close>), at midnight, and
  \<open>periodEnd\<close> is 13 calendar days later at 23:59:59.999 UTC. For an anchor whose UTC year
  is not one of 0 to 99 that Monday is the Monday of the anchor's week, and \<open>periodStart\<close>
  is a Monday.
\<close>

lemma period_arithmetic:
  shows "periodStart (getCurrentRotation e s p)
       = getMondayOfWeek s + (rotationNumber (getCurrentRotation e s p) - 1) * 14 * msPerDay"
    and "Day (periodStart (getCurrentRotation e s p))
       = Day (getMondayOfWeek s) + (rotationNumber (getCurrentRotation e s p) - 1) * 14"
    and "TimeWithinDay (periodStart (getCurrentRotation e s p)) = 0"
    and "Day (periodEnd (getCurrentRotation e s p))
       = Day (periodStart (getCurrentRotation e s p)) + 13"
    and "TimeWithinDay (periodEnd (getCurrentRotation e s p)) = MakeTime 23 59 59 999"
    and "periodEnd (getCurrentRotation e s p)
       = periodStart (getCurrentRotation e s p) + 14 * msPerDay - 1"
proof -
  let ?r = "getCurrentRotation e s p"
  let ?k = "double_of_int (wallClock e - getMondayOfWeek s) div msPerDay div 14"
  have m: "getMondayOfWeek s mod msPerDay = 0"
    by (rule getMondayOfWeek_midnight)
  have s0: "periodStart ?r = getMondayOfWeek s + ?k * 14 * msPerDay"
    by (rule periodStart_eq)
  have e0: "periodEnd ?r = getMondayOfWeek s + ?k * 14 * msPerDay + 13 * msPerDay + 86399999"
    by (rule periodEnd_eq)
  have c0: "rotationNumber ?r - 1 = ?k"
    unfolding rotationNumber_eq by simp
  show "periodStart ?r = getMondayOfWeek s + (rotationNumber ?r - 1) * 14 * msPerDay"
    unfolding c0 by (rule s0)
  have sd: "Day (periodStart ?r) = Day (getMondayOfWeek s) + ?k * 14
      \<and> TimeWithinDay (periodStart ?r) = 0"
    using split_day [OF m, of 0 "?k * 14"] unfolding s0 by (simp add: msPerDay_def)
  thus "Day (periodStart ?r) = Day (getMondayOfWeek s) + (rotationNumber ?r - 1) * 14"
    unfolding c0 by simp
  from sd show "TimeWithinDay (periodStart ?r) = 0"
    by simp
  have ed: "Day (periodEnd ?r) = Day (getMondayOfWeek s) + (?k * 14 + 13)
      \<and> TimeWithinDay (periodEnd ?r) = 86399999"
    using split_day [OF m, of 86399999 "?k * 14 + 13"] unfolding e0
    by (simp add: msPerDay_def distrib_right)
  with sd show "Day (periodEnd ?r) = Day (periodStart ?r) + 13"
    by simp
  from ed show "TimeWithinDay (periodEnd ?r) = MakeTime 23 59 59 999"
    by (simp add: MakeTime_def)
  show "periodEnd ?r = periodStart ?r + 14 * msPerDay - 1"
    unfolding s0 e0 by (simp add: msPerDay_def)
qed

lemma period_bounds_aligned:
  assumes "\<not> (0 \<le> YearFromTime s \<and> YearFromTime s \<le> 99)"
  shows "WeekDay (getMondayOfWeek s) = 1
       \<and> getMondayOfWeek s \<le> s
       \<and> s - getMondayOfWeek s < 7 * msPerDay
       \<and> periodStart (getCurrentRotation e s p)
           = getMondayOfWeek s + (rotationNumber (getCurrentRotation e s p) - 1) * 14 * msPerDay
       \<and> WeekDay (periodStart (getCurrentRotation e s p)) = 1
       \<and> TimeWithinDay (periodStart (getCurrentRotation e s p)) = 0
       \<and> Day (periodEnd (getCurrentRotation e s p))
           = Day (periodStart (getCurrentRotation e s p)) + 13
       \<and> TimeWithinDay (periodEnd (getCurrentRotation e s p)) = MakeTime 23 59 59 999"
proof -
  let ?r = "getCurrentRotation e s p"
  define g where "g = Day (getMondayOfWeek s)"
  define k where "k = rotationNumber ?r - 1"
  have a: "WeekDay (getMondayOfWeek s) = 1" "getMondayOfWeek s \<le> s"
    "s - getMondayOfWeek s < 7 * msPerDay"
    using getMondayOfWeek_aligned [OF assms] by simp_all
  have b: "Day (periodStart ?r) = g + k * 14"
    unfolding g_def k_def by (rule period_arithmetic(2))
  have "g + k * 14 + 4 = g + 4 + 7 * (2 * k)"
    by simp
  hence "(g + k * 14 + 4) mod 7 = (g + 4) mod 7"
    by (simp only: mod_mult_self2)
  hence "WeekDay (periodStart ?r) = 1"
    using a(1) unfolding WeekDay_def b g_def by simp
  thus ?thesis
    using a period_arithmetic(1,3,4,5) [of e s p] by blast
qed


text \<open>The record returned, from the Monday computed, the days counted and the period
  index.\<close>

lemma weeksSinceStart_eq:
  "weeksSinceStart (getCurrentRotation e s p)
     = double_of_int (wallClock e - getMondayOfWeek s) div msPerDay div 7"
  unfolding getCurrentRotation_def Let_def Date_now_def msPerDay_def Math_floor_div_def
    js_minus_def
  by simp

lemma getCurrentRotation_record:
  assumes "sm = getMondayOfWeek s"
    and "ds = double_of_int (wallClock e - sm) div 86400000"
    and "k = ds div 14"
  shows "getCurrentRotation e s p =
     \<lparr>currentPerson = js_index p (js_rem k (int (length p))),
      currentPersonIndex = js_rem k (int (length p)),
      rotationNumber = k + 1,
      periodStart = sm + k * 1209600000,
      periodEnd = sm + k * 1209600000 + 1209599999,
      weeksSinceStart = ds div 7,
      daysSinceStart = ds,
      isActive = (sm + k * 1209600000 \<le> wallClock e
                  \<and> wallClock e \<le> sm + k * 1209600000 + 1209599999)\<rparr>"
proof (rule rotation.equality)
  let ?R = "\<lparr>currentPerson = js_index p (js_rem k (int (length p))),
      currentPersonIndex = js_rem k (int (length p)),
      rotationNumber = k + 1,
      periodStart = sm + k * 1209600000,
      periodEnd = sm + k * 1209600000 + 1209599999,
      weeksSinceStart = ds div 7,
      daysSinceStart = ds,
      isActive = (sm + k * 1209600000 \<le> wallClock e
                  \<and> wallClock e \<le> sm + k * 1209600000 + 1209599999)\<rparr>"
  show "currentPerson (getCurrentRotation e s p) = currentPerson ?R"
    using currentPerson_eq [of e s p]
    by (simp add: rotationNumber_eq assms msPerDay_def)
qed (simp_all add: currentPerson_eq rotationNumber_eq periodStart_eq periodEnd_eq
    daysSinceStart_eq weeksSinceStart_eq isActive_eq assms msPerDay_def algebra_simps)


section \<open>Facts about getUpcomingRotations\<close>

declare upcoming_loop.simps [simp del]

text \<open>The loop pushes the entries for the counters \<open>i\<close> to \<open>count\<close>, in this order.\<close>

lemma upcoming_loop_map:
  "upcoming_loop sm p c n i acc = acc @ map (upcoming_entry sm p c) [i..n]"
proof (induction sm p c n i acc rule: upcoming_loop.induct)
  case (1 sm p c n i acc)
  show ?case
  proof (cases "i \<le> n")
    case True
    with 1 show ?thesis
      by (subst upcoming_loop.simps) (simp add: upto_rec1 [of i n])
  next
    case False
    thus ?thesis
      by (subst upcoming_loop.simps) simp
  qed
qed

lemma getUpcomingRotations_map:
  "getUpcomingRotations e s p c =
     map (upcoming_entry (getMondayOfWeek s) p
            (double_of_int (wallClock e - getMondayOfWeek s) div msPerDay div 14))
       [1..(case c of None \<Rightarrow> 5 | Some k \<Rightarrow> k)]"
  unfolding getUpcomingRotations_def Let_def upcoming_loop_map Date_now_def msPerDay_def
    Math_floor_div_def js_minus_def
  by simp

lemma upcoming_entry_fields:
  "up_rotationNumber (upcoming_entry sm p c i) = c + i + 1
   \<and> up_periodStart (upcoming_entry sm p c i) = sm + (c + i) * 14 * msPerDay
   \<and> up_person (upcoming_entry sm p c i) = js_index p (js_rem (c + i) (int (length p)))
   \<and> \<not> isCurrent (upcoming_entry sm p c i)"
  unfolding upcoming_entry_def Let_def addDays_eq by simp


section \<open>Concrete dates\<close>

lemma upto_1_1: "[1..1::int] = [1]"
  by (simp add: upto_rec1)

text \<open>2024-01-01T00:00:00.000Z, a Monday, has the time value 1704067200000.\<close>

lemma YearFromTime_2024_01_01: "YearFromTime 1704067200000 = 2024"
  by (simp add: YearFromTime_def Day_def msPerDay_def DayFromYear_def Let_def)

lemma getMondayOfWeek_2024_01_01: "getMondayOfWeek 1704067200000 = 1704067200000"
proof -
  have "\<not> (0 \<le> YearFromTime 1704067200000 \<and> YearFromTime 1704067200000 \<le> 99)"
    by (simp add: YearFromTime_2024_01_01)
  from getMondayOfWeek_eq [OF this] show ?thesis
    by (simp add: Day_def msPerDay_def)
qed

text \<open>2024-01-07T00:00:00.000Z, a Sunday, has the time value 1704585600000; its week
  starts on 2024-01-01.\<close>

lemma YearFromTime_2024_01_07: "YearFromTime 1704585600000 = 2024"
  by (simp add: YearFromTime_def Day_def msPerDay_def DayFromYear_def Let_def)

lemma getMondayOfWeek_2024_01_07:
  "WeekDay 1704585600000 = 0 \<and> getMondayOfWeek 1704585600000 = 1704067200000"
proof -
  have "\<not> (0 \<le> YearFromTime 1704585600000 \<and> YearFromTime 1704585600000 \<le> 99)"
    by (simp add: YearFromTime_2024_01_07)
  from getMondayOfWeek_eq [OF this] show ?thesis
    by (simp add: WeekDay_def Day_def msPerDay_def)
qed

text \<open>
  Participants A, B, C and the anchor 2024-01-01: at 2024-01-01 the participant is A in
  rotation 1, which ends at 2024-01-14T23:59:59.999Z (time value 1705276799999); at
  2024-01-15 it is B in rotation 2; at 2024-02-12, period index 3, it is A again.
\<close>

lemma rotation_2024_01_01:
  "getCurrentRotation \<lparr>wallClock = 1704067200000, localTZA = 0\<rparr> 1704067200000 p
     = \<lparr>currentPerson = js_index p (js_rem 0 (int (length p))),
        currentPersonIndex = js_rem 0 (int (length p)), rotationNumber = 1,
        periodStart = 1704067200000, periodEnd = 1705276799999, weeksSinceStart = 0,
        daysSinceStart = 0, isActive = True\<rparr>"
  by (subst getCurrentRotation_record [where sm = 1704067200000 and ds = 0 and k = 0])
    (simp_all add: getMondayOfWeek_2024_01_01 double_of_int_def)

lemma rotation_2024_01_15:
  "getCurrentRotation \<lparr>wallClock = 1705276800000, localTZA = 0\<rparr> 1704067200000 p
     = \<lparr>currentPerson = js_index p (js_rem 1 (int (length p))),
        currentPersonIndex = js_rem 1 (int (length p)), rotationNumber = 2,
        periodStart = 1705276800000, periodEnd = 1706486399999, weeksSinceStart = 2,
        daysSinceStart = 14, isActive = True\<rparr>"
  by (subst getCurrentRotation_record [where sm = 1704067200000 and ds = 14 and k = 1])
    (simp_all add: getMondayOfWeek_2024_01_01 double_of_int_def)

lemma rotation_2024_02_12:
  "getCurrentRotation \<lparr>wallClock = 1707696000000, localTZA = 0\<rparr> 1704067200000 p
     = \<lparr>currentPerson = js_index p (js_rem 3 (int (length p))),
        currentPersonIndex = js_rem 3 (int (length p)), rotationNumber = 4,
        periodStart = 1707696000000, periodEnd = 1708905599999, weeksSinceStart = 6,
        daysSinceStart = 42, isActive = True\<rparr>"
  by (subst getCurrentRotation_record [where sm = 1704067200000 and ds = 42 and k = 3])
    (simp_all add: getMondayOfWeek_2024_01_01 double_of_int_def)

lemma rotation_cycle_2024:
  "currentPerson (getCurrentRotation \<lparr>wallClock = 1704067200000, localTZA = 0\<rparr>
      1704067200000 [''A'', ''B'', ''C'']) = Some ''A''
   \<and> rotationNumber (getCurrentRotation \<lparr>wallClock = 1704067200000, localTZA = 0\<rparr>
      1704067200000 [''A'', ''B'', ''C'']) = 1
   \<and> periodEnd (getCurrentRotation \<lparr>wallClock = 1704067200000, localTZA = 0\<rparr>
      1704067200000 [''A'', ''B'', ''C'']) = 1705276799999
   \<and> currentPerson (getCurrentRotation \<lparr>wallClock = 1705276800000, localTZA = 0\<rparr>
      1704067200000 [''A'', ''B'', ''C'']) = Some ''B''
   \<and> rotationNumber (getCurrentRotation \<lparr>wallClock = 1705276800000, localTZA = 0\<rparr>
      1704067200000 [''A'', ''B'', ''C'']) = 2
   \<and> currentPerson (getCurrentRotation \<lparr>wallClock = 1707696000000, localTZA = 0\<rparr>
      1704067200000 [''A'', ''B'', ''C'']) = Some ''A''
   \<and> rotationNumber (getCurrentRotation \<lparr>wallClock = 1707696000000, localTZA = 0\<rparr>
      1704067200000 [''A'', ''B'', ''C'']) = 4"
  by (simp add: rotation_2024_01_01 rotation_2024_01_15 rotation_2024_02_12 js_rem_def
      js_index_def)

text \<open>The forecast of one rotation made at 2024-01-01 for the anchor 2024-01-01.\<close>

lemma upcoming_2024_01_01:
  "getUpcomingRotations \<lparr>wallClock = 1704067200000, localTZA = 0\<rparr> 1704067200000 p (Some 1)
     = [\<lparr>up_person = js_index p (js_rem 1 (int (length p))), up_rotationNumber = 2,
         up_periodStart = 1705276800000, up_periodEnd = 1706486399999, isCurrent = False\<rparr>]"
proof -
  have m: "(1704067200000::int) mod msPerDay = 0"
    by (simp add: msPerDay_def)
  have "upcoming_entry 1704067200000 p 0 1
      = \<lparr>up_person = js_index p (js_rem 1 (int (length p))), up_rotationNumber = 2,
         up_periodStart = 1705276800000, up_periodEnd = 1706486399999, isCurrent = False\<rparr>"
    unfolding upcoming_entry_def Let_def
    using rotation_end_eq [OF m, of 14] by (simp add: addDays_eq msPerDay_def)
  thus ?thesis
    by (simp add: getUpcomingRotations_map getMondayOfWeek_2024_01_01 double_of_int_def
        msPerDay_def upto_1_1)
qed

text \<open>0050-01-05T00:00:00.000Z, a Wednesday of the year 50, has the time value
  -60588950400000; 1950-01-03T00:00:00.000Z, a Tuesday, has -630979200000.\<close>

lemma Day_0050_01_05: "Day (- 60588950400000) = - 701261"
  by (simp add: Day_def msPerDay_def)

lemma YearFromTime_0050_01_05: "YearFromTime (- 60588950400000) = 50"
  by (simp add: YearFromTime_def Day_0050_01_05 DayFromYear_def Let_def)

lemma DayWithinYear_0050_01_05:
  "DayWithinYear (- 60588950400000) = 4 \<and> InLeapYear (- 60588950400000) = 0"
  by (simp add: DayWithinYear_def InLeapYear_def DaysInYear_def YearFromTime_0050_01_05
      Day_0050_01_05 DayFromYear_def)

lemma MonthFromTime_0050_01_05: "MonthFromTime (- 60588950400000) = 0"
  by (simp add: MonthFromTime_def DayWithinYear_0050_01_05 Let_def)

lemma DateFromTime_0050_01_05: "DateFromTime (- 60588950400000) = 5"
  by (simp add: DateFromTime_def DayWithinYear_0050_01_05 MonthFromTime_0050_01_05 Let_def)

lemma WeekDay_0050_01_05: "WeekDay (- 60588950400000) = 3"
  by (simp add: WeekDay_def Day_0050_01_05)

lemma Day_1950_01_03: "Day (- 630979200000) = - 7303"
  by (simp add: Day_def msPerDay_def)

lemma YearFromTime_1950_01_03: "YearFromTime (- 630979200000) = 1950"
  by (simp add: YearFromTime_def Day_1950_01_03 DayFromYear_def Let_def)

lemma WeekDay_1950_01_03: "WeekDay (- 630979200000) = 2"
  by (simp add: WeekDay_def Day_1950_01_03)

lemma getMondayOfWeek_0050_01_05: "getMondayOfWeek (- 60588950400000) = - 630979200000"
  by (simp add: getMondayOfWeek_day YearFromTime_0050_01_05 MonthFromTime_0050_01_05
      DateFromTime_0050_01_05 WeekDay_0050_01_05 MakeFullYear_def MakeDay_def
      MonthStartDay_def DaysInYear_def DayFromYear_def msPerDay_def Let_def)

text \<open>2023-12-26T00:00:00.000Z, a Tuesday, has the time value 1703548800000.\<close>

lemma WeekDay_2023_12_26: "WeekDay 1703548800000 = 2"
  by (simp add: WeekDay_def Day_def msPerDay_def)

text \<open>
  The time value -8000000121600000 is a valid date, the midnight that starts a Monday of
  the year -251540.
\<close>

lemma YearFromTime_far_past: "YearFromTime (- 8000000121600000) = - 251540"
  by (simp add: YearFromTime_def Day_def msPerDay_def DayFromYear_def Let_def)

lemma getMondayOfWeek_far_past: "getMondayOfWeek (- 8000000121600000) = - 8000000121600000"
proof -
  have "\<not> (0 \<le> YearFromTime (- 8000000121600000) \<and> YearFromTime (- 8000000121600000) \<le> 99)"
    by (simp add: YearFromTime_far_past)
  from getMondayOfWeek_eq [OF this] show ?thesis
    by (simp add: Day_def msPerDay_def)
qed

text \<open>
  The difference between the time value 3596412095999999 and that Monday is above
  \<open>2^53\<close> and odd; the rounding of the standard takes it to the next integer.
\<close>

lemma round_double_far_past:
  "round_double (of_int (3596412095999999 - (- 8000000121600000))) = 11596412217600000
   \<and> js_minus 3596412095999999 (- 8000000121600000) = 11596412217600000"
proof -
  have "js_minus 3596412095999999 (- 8000000121600000) = 11596412217600000"
    by (simp add: js_minus_def double_of_int_def)
  moreover have "round_double (of_int (3596412095999999 - (- 8000000121600000)))
      = of_int (js_minus 3596412095999999 (- 8000000121600000))"
    unfolding js_minus_def by (rule round_double_difference) simp
  ultimately show ?thesis
    by simp
qed


section \<open>The claims\<close>

text \<open>
  C1. The claim: for every participant list that is not empty and every period index,
  negative ones included, the participant index computed by \<open>getCurrentRotation\<close> is the
  mathematical modulo of the period index by the length of the list, so that one day
  before the anchor's Monday the period index is -1 and the participant is the last of
  the list.

  The code computes the index with the remainder operator \<^verbatim>\<open>%\<close>. With participants A, B,
  C, the anchor 2024-01-01 and the clock at 2023-12-31T00:00:00.000Z, the period index is
  -1 (the returned \<open>rotationNumber\<close> is 0), the participant index is -1 and not 2, and the
  participant is \<^verbatim>\<open>undefined\<close> and not C.
\<close>

theorem currentPerson_day_before_anchor:
  "getCurrentRotation \<lparr>wallClock = 1703980800000, localTZA = 0\<rparr> 1704067200000
       [''A'', ''B'', ''C'']
     = \<lparr>currentPerson = None, currentPersonIndex = Number (- 1), rotationNumber = 0,
        periodStart = 1702857600000, periodEnd = 1704067199999, weeksSinceStart = - 1,
        daysSinceStart = - 1, isActive = True\<rparr>
   \<and> (- 1 :: int) mod int (length [''A'', ''B'', ''C'']) = 2"
  by (subst getCurrentRotation_record [where sm = 1704067200000 and ds = "- 1" and k = "- 1"])
    (simp_all add: getMondayOfWeek_2024_01_01 double_of_int_def js_rem_def js_index_def)

text \<open>
  C2. The claim: for every valid date \<open>getMondayOfWeek\<close> returns a Monday at
  00:00:00.000 UTC that is not after the date and less than seven days before it.

  For a date in the years 0 to 99 the code passes the two-digit year to \<^verbatim>\<open>Date.UTC\<close>,
  which reads it as a year of the twentieth century. For 0050-01-05, a Wednesday, the
  result is 1950-01-03, a Tuesday nineteen centuries after the date. (Lemma
  \<open>getMondayOfWeek_aligned\<close> above proves the claim for every date of another year.)
\<close>

theorem getMondayOfWeek_year_50:
  "YearFromTime (- 60588950400000) = 50
   \<and> MonthFromTime (- 60588950400000) = 0
   \<and> DateFromTime (- 60588950400000) = 5
   \<and> WeekDay (- 60588950400000) = 3
   \<and> getMondayOfWeek (- 60588950400000) = - 630979200000
   \<and> YearFromTime (- 630979200000) = 1950
   \<and> WeekDay (- 630979200000) = 2
   \<and> \<not> getMondayOfWeek (- 60588950400000) \<le> - 60588950400000"
  by (simp add: getMondayOfWeek_0050_01_05 YearFromTime_0050_01_05 MonthFromTime_0050_01_05
      DateFromTime_0050_01_05 WeekDay_0050_01_05 YearFromTime_1950_01_03 WeekDay_1950_01_03)

text \<open>
  C3. The claim: for every anchor date and every clock reading, \<open>periodStart\<close> is the
  Monday of the anchor's week plus 14 days times the period index, at 00:00:00.000 UTC,
  and \<open>periodEnd\<close> is 13 days after \<open>periodStart\<close> at 23:59:59.999 UTC.

  The code adds the 14-day periods to the date that \<open>getMondayOfWeek\<close> returns, which for
  an anchor in the years 0 to 99 is not the Monday of the anchor's week (C2). For the
  anchor 0050-01-05, whose week starts on Monday 0050-01-03 (time value -60589123200000),
  and the clock at 2024-01-01, \<open>periodStart\<close> is 2023-12-26, a Tuesday, eight days off a
  whole number of 14-day periods after that Monday. (For an anchor of any other year,
  lemma \<open>period_bounds_aligned\<close> above proves the claim: \<open>periodStart\<close> is the Monday of
  the anchor's week plus 14 days times the period index returned, a Monday at midnight,
  and \<open>periodEnd\<close> is on the calendar day 13 days later at 23:59:59.999 UTC.)
\<close>

theorem periodStart_year_50:
  "WeekDay (- 60589123200000) = 1
   \<and> TimeWithinDay (- 60589123200000) = 0
   \<and> - 60589123200000 \<le> (- 60588950400000 :: int)
   \<and> - 60588950400000 - (- 60589123200000) < 7 * msPerDay
   \<and> periodStart (getCurrentRotation \<lparr>wallClock = 1704067200000, localTZA = 0\<rparr>
        (- 60588950400000) [''A'', ''B'', ''C'']) = 1703548800000
   \<and> periodEnd (getCurrentRotation \<lparr>wallClock = 1704067200000, localTZA = 0\<rparr>
        (- 60588950400000) [''A'', ''B'', ''C'']) = 1704758399999
   \<and> rotationNumber (getCurrentRotation \<lparr>wallClock = 1704067200000, localTZA = 0\<rparr>
        (- 60588950400000) [''A'', ''B'', ''C'']) = 1931
   \<and> WeekDay 1703548800000 = 2
   \<and> (1703548800000 - (- 60589123200000)) mod (14 * msPerDay) = 8 * msPerDay"
proof -
  have "getCurrentRotation \<lparr>wallClock = 1704067200000, localTZA = 0\<rparr>
        (- 60588950400000) [''A'', ''B'', ''C'']
      = \<lparr>currentPerson = Some ''B'', currentPersonIndex = Number 1, rotationNumber = 1931,
         periodStart = 1703548800000, periodEnd = 1704758399999, weeksSinceStart = 3860,
         daysSinceStart = 27026, isActive = True\<rparr>"
    by (subst getCurrentRotation_record
          [where sm = "- 630979200000" and ds = 27026 and k = 1930])
      (simp_all add: getMondayOfWeek_0050_01_05 double_of_int_def js_rem_def js_index_def)
  thus ?thesis
    by (simp add: WeekDay_2023_12_26 WeekDay_def TimeWithinDay_def Day_def msPerDay_def)
qed

text \<open>
  C4. The claim: for all \<open>n\<close>, at a clock reading of the anchor's Monday plus \<open>14 * n\<close>
  days the period index is \<open>n\<close>, the rotation number \<open>n + 1\<close> and the participant the
  element at \<open>n\<close> modulo the length of the list.

  The period index and the rotation number are as claimed for every \<open>n\<close>, and the
  participant for every \<open>n\<close> that is not negative (lemma \<open>rotation_at_period_start\<close>; the
  three dated examples of the claim are lemma \<open>rotation_cycle_2024\<close>). For \<open>n = -1\<close>, with
  participants A, B, C and the anchor 2024-01-01, the clock reads 2023-12-18, the period
  index is -1, and the participant is \<^verbatim>\<open>undefined\<close>, where the element at -1 modulo 3
  is C.
\<close>

theorem currentPerson_period_before_anchor:
  "getMondayOfWeek 1704067200000 + 14 * (- 1) * msPerDay = 1702857600000
   \<and> rotationNumber (getCurrentRotation \<lparr>wallClock = 1702857600000, localTZA = 0\<rparr>
        1704067200000 [''A'', ''B'', ''C'']) - 1 = - 1
   \<and> currentPerson (getCurrentRotation \<lparr>wallClock = 1702857600000, localTZA = 0\<rparr>
        1704067200000 [''A'', ''B'', ''C'']) = None
   \<and> [''A'', ''B'', ''C''] ! nat ((- 1) mod int (length [''A'', ''B'', ''C''])) = ''C''"
proof -
  have "getCurrentRotation \<lparr>wallClock = 1702857600000, localTZA = 0\<rparr>
        1704067200000 [''A'', ''B'', ''C'']
      = \<lparr>currentPerson = None, currentPersonIndex = Number (- 1), rotationNumber = 0,
         periodStart = 1702857600000, periodEnd = 1704067199999, weeksSinceStart = - 2,
         daysSinceStart = - 14, isActive = True\<rparr>"
    by (subst getCurrentRotation_record
          [where sm = 1704067200000 and ds = "- 14" and k = "- 1"])
      (simp_all add: getMondayOfWeek_2024_01_01 double_of_int_def js_rem_def js_index_def)
  thus ?thesis
    by (simp add: getMondayOfWeek_2024_01_01 msPerDay_def)
qed



text \<open>
  C6. The claim: with an empty participant list (either function) or a negative count
  (\<open>getUpcomingRotations\<close>) the call fails with an InvalidArgument error and produces no
  result.

  Neither function has a \<^verbatim>\<open>throw\<close> or a check of its arguments, and nothing they call
  throws; the emptiness of the list is checked by the route that stores a schedule. Both
  return normally. With an empty list and the anchor and clock at 2024-01-01,
  \<open>getCurrentRotation\<close> returns the record below, and \<open>getUpcomingRotations\<close> with count 1
  returns one entry; with one participant and the count -1 it returns the empty array.
\<close>

theorem empty_people_returns_normally:
  "getCurrentRotation \<lparr>wallClock = 1704067200000, localTZA = 0\<rparr> 1704067200000 []
     = \<lparr>currentPerson = None, currentPersonIndex = NaN, rotationNumber = 1,
        periodStart = 1704067200000, periodEnd = 1705276799999, weeksSinceStart = 0,
        daysSinceStart = 0, isActive = True\<rparr>
   \<and> getUpcomingRotations \<lparr>wallClock = 1704067200000, localTZA = 0\<rparr> 1704067200000 []
        (Some 1)
     = [\<lparr>up_person = None, up_rotationNumber = 2, up_periodStart = 1705276800000,
         up_periodEnd = 1706486399999, isCurrent = False\<rparr>]
   \<and> getUpcomingRotations \<lparr>wallClock = 1704067200000, localTZA = 0\<rparr> 1704067200000 [''A'']
        (Some (- 1))
     = []"
proof -
  have "getUpcomingRotations \<lparr>wallClock = 1704067200000, localTZA = 0\<rparr> 1704067200000 [''A'']
        (Some (- 1)) = []"
    unfolding getUpcomingRotations_map by simp
  thus ?thesis
    by (simp add: rotation_2024_01_01 upcoming_2024_01_01 js_rem_def js_index_def)
qed

text \<open>
  C6, as amended. With an empty participant list no error is signalled:
  \<open>getCurrentRotation\<close> returns a record whose \<open>currentPerson\<close> is \<^verbatim>\<open>undefined\<close> and whose
  \<open>currentPersonIndex\<close> is \<^verbatim>\<open>NaN\<close>, and \<open>getUpcomingRotations\<close> returns as many entries as
  for any other list, each with the person \<^verbatim>\<open>undefined\<close>. With a negative count
  \<open>getUpcomingRotations\<close> returns the empty array, whatever the list.
\<close>

theorem empty_people_no_error:
  "currentPerson (getCurrentRotation e s []) = None
   \<and> currentPersonIndex (getCurrentRotation e s []) = NaN
   \<and> (\<forall>x \<in> set (getUpcomingRotations e s [] c). up_person x = None)
   \<and> length (getUpcomingRotations e s [] c) = nat (case c of None \<Rightarrow> 5 | Some k \<Rightarrow> k)
   \<and> (k < 0 \<longrightarrow> getUpcomingRotations e s p (Some k) = [])"
proof -
  have "currentPerson (getCurrentRotation e s []) = None
      \<and> currentPersonIndex (getCurrentRotation e s []) = NaN"
    unfolding getCurrentRotation_def Let_def by (simp add: js_rem_def js_index_def)
  moreover have "up_person x = None" if "x \<in> set (getUpcomingRotations e s [] c)" for x
    using that unfolding getUpcomingRotations_map
    by (auto simp: upcoming_entry_fields js_rem_def js_index_def)
  moreover have "length (getUpcomingRotations e s [] c)
      = nat (case c of None \<Rightarrow> 5 | Some k \<Rightarrow> k)"
    unfolding getUpcomingRotations_map by simp
  moreover have "k < 0 \<longrightarrow> getUpcomingRotations e s p (Some k) = []"
    unfolding getUpcomingRotations_map by simp
  ultimately show ?thesis
    by blast
qed

theorem empty_people_no_error_witness:
  "currentPerson (getCurrentRotation \<lparr>wallClock = 1704067200000, localTZA = 0\<rparr>
      1704067200000 []) = None
   \<and> currentPersonIndex (getCurrentRotation \<lparr>wallClock = 1704067200000, localTZA = 0\<rparr>
      1704067200000 []) = NaN
   \<and> \<lparr>up_person = None, up_rotationNumber = 2, up_periodStart = 1705276800000,
         up_periodEnd = 1706486399999, isCurrent = False\<rparr>
       \<in> set (getUpcomingRotations \<lparr>wallClock = 1704067200000, localTZA = 0\<rparr>
            1704067200000 [] (Some 1))
   \<and> length (getUpcomingRotations \<lparr>wallClock = 1704067200000, localTZA = 0\<rparr>
        1704067200000 [] (Some 1)) = 1
   \<and> (- 1 :: int) < 0
   \<and> getUpcomingRotations \<lparr>wallClock = 1704067200000, localTZA = 0\<rparr>
        1704067200000 [''A''] (Some (- 1)) = []"
proof -
  let ?e = "\<lparr>wallClock = 1704067200000, localTZA = 0\<rparr>"
  have mem: "\<lparr>up_person = None, up_rotationNumber = 2, up_periodStart = 1705276800000,
         up_periodEnd = 1706486399999, isCurrent = False\<rparr>
       \<in> set (getUpcomingRotations ?e 1704067200000 [] (Some 1))"
    by (simp add: upcoming_2024_01_01 js_rem_def js_index_def)
  show ?thesis
    using mem empty_people_no_error [of ?e 1704067200000 "Some 1" "- 1" "[''A'']"] by simp
qed



text \<open>
  C8. For every participant list, anchor date, clock reading and integer count,
  \<open>getUpcomingRotations\<close> returns exactly \<open>count\<close> entries when the count is positive and
  the empty array when it is zero or negative; with the count omitted it returns 5.
\<close>

theorem upcoming_length:
  "(0 < c \<longrightarrow> int (length (getUpcomingRotations e s p (Some c))) = c)
   \<and> (c \<le> 0 \<longrightarrow> getUpcomingRotations e s p (Some c) = [])
   \<and> length (getUpcomingRotations e s p None) = 5"
  unfolding getUpcomingRotations_map by simp

theorem upcoming_length_witness:
  "0 < (3::int)
   \<and> int (length (getUpcomingRotations \<lparr>wallClock = 1704067200000, localTZA = 0\<rparr>
        1704067200000 [''A'', ''B'', ''C''] (Some 3))) = 3
   \<and> (- 1 :: int) \<le> 0
   \<and> getUpcomingRotations \<lparr>wallClock = 1704067200000, localTZA = 0\<rparr>
        1704067200000 [''A'', ''B'', ''C''] (Some (- 1)) = []
   \<and> length (getUpcomingRotations \<lparr>wallClock = 1704067200000, localTZA = 0\<rparr>
        1704067200000 [''A'', ''B'', ''C''] None) = 5"
  using upcoming_length [of 3 "\<lparr>wallClock = 1704067200000, localTZA = 0\<rparr>" 1704067200000
      "[''A'', ''B'', ''C'']"]
    upcoming_length [of "- 1" "\<lparr>wallClock = 1704067200000, localTZA = 0\<rparr>" 1704067200000
      "[''A'', ''B'', ''C'']"]
  by simp

text \<open>
  C9. The claim: the two computations are functions of exactly (people, anchorDate, now),
  with \<open>now\<close> supplied as an argument and not read from a wall clock, so that two calls
  with the same arguments return the same structure.

  \<open>getCurrentRotation(startDate, people)\<close> and \<open>getUpcomingRotations(startDate, people,
  count)\<close> have no such parameter: each reads the wall clock with \<^verbatim>\<open>new Date()\<close>. Two calls
  with the same arguments, anchor 2024-01-01 and participants A, B, C, made at
  2024-01-01 and at 2024-01-15, return different records.
\<close>

theorem same_arguments_different_clock:
  "getCurrentRotation \<lparr>wallClock = 1704067200000, localTZA = 0\<rparr> 1704067200000
       [''A'', ''B'', ''C'']
   \<noteq> getCurrentRotation \<lparr>wallClock = 1705276800000, localTZA = 0\<rparr> 1704067200000
       [''A'', ''B'', ''C'']"
  by (simp add: rotation_2024_01_01 rotation_2024_01_15)

text \<open>
  C9, as amended. The results of \<open>getCurrentRotation\<close> and \<open>getUpcomingRotations\<close> are
  determined by their arguments together with the reading of the wall clock that each
  takes, and by nothing else of the environment: two calls with the same arguments at
  the same clock reading return the same structure.
\<close>

theorem rotation_depends_on_clock:
  assumes "wallClock e1 = wallClock e2"
  shows "getCurrentRotation e1 s p = getCurrentRotation e2 s p
       \<and> getUpcomingRotations e1 s p c = getUpcomingRotations e2 s p c"
  using assms unfolding getCurrentRotation_def getUpcomingRotations_def Date_now_def by simp

theorem rotation_depends_on_clock_witness:
  "wallClock \<lparr>wallClock = 1704067200000, localTZA = 0\<rparr>
     = wallClock \<lparr>wallClock = 1704067200000, localTZA = 3600000\<rparr>
   \<and> getCurrentRotation \<lparr>wallClock = 1704067200000, localTZA = 0\<rparr> 1704067200000
        [''A'', ''B'', ''C'']
     = getCurrentRotation \<lparr>wallClock = 1704067200000, localTZA = 3600000\<rparr> 1704067200000
        [''A'', ''B'', ''C'']
   \<and> getUpcomingRotations \<lparr>wallClock = 1704067200000, localTZA = 0\<rparr> 1704067200000
        [''A'', ''B'', ''C''] None
     = getUpcomingRotations \<lparr>wallClock = 1704067200000, localTZA = 3600000\<rparr> 1704067200000
        [''A'', ''B'', ''C''] None"
  using rotation_depends_on_clock [of "\<lparr>wallClock = 1704067200000, localTZA = 0\<rparr>"
      "\<lparr>wallClock = 1704067200000, localTZA = 3600000\<rparr>" 1704067200000
      "[''A'', ''B'', ''C'']" None]
  by simp

text \<open>
  C10. The claim: for every anchor date and every clock reading the \<open>isActive\<close> field of
  the record returned by \<open>getCurrentRotation\<close> is true.

  The difference \<^verbatim>\<open>now - startMonday\<close> is a double. With the anchor at the time value
  -8000000121600000 (a Monday midnight of the year -251540) and the clock at
  3596412095999999, both valid dates, the difference 11596412217599999 is above \<open>2^53\<close> and
  odd, and is rounded to 11596412217600000, which is 134217734 whole days and 9586981
  whole periods: \<open>periodStart\<close> is one millisecond after the clock reading and \<open>isActive\<close>
  is false. Every date computed on the way is a valid date.
\<close>

theorem isActive_false_beyond_2_53:
  "valid_time (- 8000000121600000)
   \<and> valid_time 3596412095999999
   \<and> getMondayOfWeek (- 8000000121600000) = - 8000000121600000
   \<and> js_minus 3596412095999999 (- 8000000121600000) = 11596412217600000
   \<and> daysSinceStart (getCurrentRotation \<lparr>wallClock = 3596412095999999, localTZA = 0\<rparr>
        (- 8000000121600000) [''A'', ''B'', ''C'']) = 134217734
   \<and> periodStart (getCurrentRotation \<lparr>wallClock = 3596412095999999, localTZA = 0\<rparr>
        (- 8000000121600000) [''A'', ''B'', ''C'']) = 3596412096000000
   \<and> periodEnd (getCurrentRotation \<lparr>wallClock = 3596412095999999, localTZA = 0\<rparr>
        (- 8000000121600000) [''A'', ''B'', ''C'']) = 3596413305599999
   \<and> valid_time 3596412096000000
   \<and> valid_time 3596413305599999
   \<and> \<not> isActive (getCurrentRotation \<lparr>wallClock = 3596412095999999, localTZA = 0\<rparr>
        (- 8000000121600000) [''A'', ''B'', ''C''])"
proof -
  have d: "double_of_int 11596412217599999 = 11596412217600000"
    by (simp add: double_of_int_def)
  have "getCurrentRotation \<lparr>wallClock = 3596412095999999, localTZA = 0\<rparr>
        (- 8000000121600000) [''A'', ''B'', ''C'']
      = \<lparr>currentPerson = Some ''B'', currentPersonIndex = Number 1,
         rotationNumber = 9586982, periodStart = 3596412096000000,
         periodEnd = 3596413305599999, weeksSinceStart = 19173962,
         daysSinceStart = 134217734, isActive = False\<rparr>"
    by (subst getCurrentRotation_record
          [where sm = "- 8000000121600000" and ds = 134217734 and k = 9586981])
      (simp_all add: getMondayOfWeek_far_past d js_rem_def js_index_def)
  thus ?thesis
    by (simp add: getMondayOfWeek_far_past js_minus_def d valid_time_def)
qed

text \<open>
  C10, as amended. For every anchor date and clock reading such that the difference,
  clock reading less the Monday computed for the anchor, is at most \<open>2^53\<close> milliseconds
  in magnitude (about 285 000 years), and such that this Monday, \<open>periodStart\<close> and
  \<open>periodEnd\<close> are valid dates, the \<open>isActive\<close> field of the record returned by
  \<open>getCurrentRotation\<close> is true: the clock reading lies between \<open>periodStart\<close> and
  \<open>periodEnd\<close>, both included.
\<close>

theorem isActive_within_2_53:
  assumes "\<bar>wallClock e - getMondayOfWeek s\<bar> \<le> 9007199254740992"
    and "valid_time (getMondayOfWeek s)"
    and "valid_time (periodStart (getCurrentRotation e s p))"
    and "valid_time (periodEnd (getCurrentRotation e s p))"
  shows "isActive (getCurrentRotation e s p)
       \<and> periodStart (getCurrentRotation e s p) \<le> wallClock e
       \<and> wallClock e \<le> periodEnd (getCurrentRotation e s p)"
  unfolding isActive_eq using clock_within_period [OF assms(1), of p] by simp

theorem isActive_within_2_53_witness:
  "\<bar>wallClock \<lparr>wallClock = 1705276800000, localTZA = 0\<rparr> - getMondayOfWeek 1704067200000\<bar>
      \<le> 9007199254740992
   \<and> valid_time (getMondayOfWeek 1704067200000)
   \<and> valid_time (periodStart (getCurrentRotation \<lparr>wallClock = 1705276800000, localTZA = 0\<rparr>
        1704067200000 [''A'', ''B'', ''C'']))
   \<and> valid_time (periodEnd (getCurrentRotation \<lparr>wallClock = 1705276800000, localTZA = 0\<rparr>
        1704067200000 [''A'', ''B'', ''C'']))
   \<and> isActive (getCurrentRotation \<lparr>wallClock = 1705276800000, localTZA = 0\<rparr>
        1704067200000 [''A'', ''B'', ''C''])
   \<and> periodStart (getCurrentRotation \<lparr>wallClock = 1705276800000, localTZA = 0\<rparr>
        1704067200000 [''A'', ''B'', ''C'']) \<le> 1705276800000
   \<and> 1705276800000 \<le> periodEnd (getCurrentRotation \<lparr>wallClock = 1705276800000, localTZA = 0\<rparr>
        1704067200000 [''A'', ''B'', ''C''])"
proof -
  let ?e = "\<lparr>wallClock = 1705276800000, localTZA = 0\<rparr>"
  let ?p = "[''A'', ''B'', ''C'']"
  have h1: "\<bar>wallClock ?e - getMondayOfWeek 1704067200000\<bar> \<le> 9007199254740992"
    by (simp add: getMondayOfWeek_2024_01_01)
  have h2: "valid_time (getMondayOfWeek 1704067200000)"
    by (simp add: getMondayOfWeek_2024_01_01 valid_time_def)
  have h3: "valid_time (periodStart (getCurrentRotation ?e 1704067200000 ?p))"
    by (simp add: rotation_2024_01_15 valid_time_def)
  have h4: "valid_time (periodEnd (getCurrentRotation ?e 1704067200000 ?p))"
    by (simp add: rotation_2024_01_15 valid_time_def)
  from isActive_within_2_53 [OF h1 h2 h3 h4] h1 h2 h3 h4 show ?thesis
    by simp
qed

end
